theory Spec2Isabelle
  imports Complex_Main
begin

section \<open>The SPA router of \<^verbatim>\<open>src/js/router.js\<close>\<close>

text \<open>
  The development embeds the class \<^verbatim>\<open>Router\<close> of \<^verbatim>\<open>src/js/router.js\<close>: the route table, the
  fuzzy matcher (edit distance and similarity), the bounded history list and the navigation
  procedure with its guards, its \<^verbatim>\<open>try / catch / finally\<close> and its not-found fallback.

  Conventions of the embedding.
  \<^item> A route path is a \<^typ>\<open>string\<close> whose characters are the code units below 256 (ASCII and
    Latin-1); \<^verbatim>\<open>toLowerCase\<close>, \<^verbatim>\<open>toUpperCase\<close> and \<^verbatim>\<open>trim\<close> are those of JavaScript on this range.
    A path with a code unit from 256 on is outside the embedding.
  \<^item> The router object and the part of the browser it touches form one state that every method
    takes and returns.
  \<^item> A callback (handler, guard, listener) is a function to what the router observes of it:
    it returned \<^verbatim>\<open>false\<close>, it returned something else, or it threw. Every awaited callback
    settles, and a callback does not write the router's fields.
  \<^item> \<^verbatim>\<open>async navigate\<close> runs to completion as one step; a call that arrives while another is in
    flight is a call on a state whose \<^verbatim>\<open>isNavigating\<close> is true.
  \<^item> The similarity score, a quotient of two string lengths, is an exact rational. The double
    of the source is the correctly rounded quotient, so every comparison made on scores
    (with each other and with \<^verbatim>\<open>0.6\<close>) has the same result for paths shorter than \<open>2 ^ 26\<close>.
\<close>

subsection \<open>Strings\<close>

text \<open>
  The upper-case letters of the range are \<^verbatim>\<open>A\<close> to \<^verbatim>\<open>Z\<close> (65 to 90) and U+00C0 to U+00DE
  without the multiplication sign U+00D7 (215); the lower-case letter is 32 higher, which is
  bit 5 of the code unit.
\<close>

definition toLowerChar :: "char \<Rightarrow> char" where
  "toLowerChar c =
     (if (65 \<le> (of_char c :: nat) \<and> (of_char c :: nat) \<le> 90)
         \<or> (192 \<le> (of_char c :: nat) \<and> (of_char c :: nat) \<le> 222 \<and> (of_char c :: nat) \<noteq> 215)
      then (case c of Char b0 b1 b2 b3 b4 b5 b6 b7 \<Rightarrow> Char b0 b1 b2 b3 b4 True b6 b7)
      else c)"

text \<open>
  The lower-case letters with an upper-case letter 32 lower: \<^verbatim>\<open>a\<close> to \<^verbatim>\<open>z\<close> and U+00E0 to U+00FE
  without the division sign U+00F7 (247).
\<close>

definition toUpperChar :: "char \<Rightarrow> char" where
  "toUpperChar c =
     (if (97 \<le> (of_char c :: nat) \<and> (of_char c :: nat) \<le> 122)
         \<or> (224 \<le> (of_char c :: nat) \<and> (of_char c :: nat) \<le> 254 \<and> (of_char c :: nat) \<noteq> 247)
      then (case c of Char b0 b1 b2 b3 b4 b5 b6 b7 \<Rightarrow> Char b0 b1 b2 b3 b4 False b6 b7)
      else c)"

text \<open>
  \<^verbatim>\<open>toUpperCase\<close> of one character: the sharp s U+00DF (223) becomes \<^verbatim>\<open>SS\<close>. The upper-case
  letters of the micro sign U+00B5 and of U+00FF are code units from 256 on, outside the
  range; the two characters are left as they are here, which bears on the default title of
  a route whose path starts with one of them and on nothing else.
\<close>

definition charToUpperCase :: "char \<Rightarrow> string" where
  "charToUpperCase c = (if (of_char c :: nat) = 223 then ''SS'' else [toUpperChar c])"

definition toLowerCase :: "string \<Rightarrow> string" where
  "toLowerCase s = map toLowerChar s"

text \<open>
  The white space and line terminators that \<^verbatim>\<open>trim\<close> strips, below 256: tab, line feed,
  vertical tab, form feed, carriage return, space and the no-break space U+00A0 (160).
\<close>

definition isWhiteSpace :: "char \<Rightarrow> bool" where
  "isWhiteSpace c = ((of_char c :: nat) \<in> {9, 10, 11, 12, 13, 32, 160})"

definition trim :: "string \<Rightarrow> string" where
  "trim s = rev (dropWhile isWhiteSpace (rev (dropWhile isWhiteSpace s)))"

text \<open>\<^verbatim>\<open>path.charAt(0).toUpperCase() + path.slice(1).replace(/[-_]/g, ' ')\<close>\<close>

definition formatTitle :: "string \<Rightarrow> string" where
  "formatTitle p =
     (case p of
        [] \<Rightarrow> []
      | c # cs \<Rightarrow>
          charToUpperCase c @ map (\<lambda>x. if x = CHR ''-'' \<or> x = CHR ''_'' then CHR '' '' else x) cs)"

subsection \<open>Edit distance and similarity\<close>

text \<open>
  \<^verbatim>\<open>calculateEditDistance(str1, str2)\<close> fills a matrix with one row for each prefix of
  \<^verbatim>\<open>str2\<close> and one column for each prefix of \<^verbatim>\<open>str1\<close>. \<open>fillRow\<close> is the inner loop over \<open>j\<close>: it
  walks \<^verbatim>\<open>str1\<close> with the row above (from column \<open>j - 1\<close> on) and the cell to the left.
  \<open>finalRow\<close> is the outer loop over \<open>i\<close>; row \<open>0\<close> is \<open>[0, 1, ..., str1.length]\<close> and row \<open>i\<close>
  starts with \<open>i\<close>.
\<close>

fun fillRow :: "char \<Rightarrow> string \<Rightarrow> nat list \<Rightarrow> nat \<Rightarrow> nat list" where
  "fillRow c (x # xs) (d # a # rest) left =
     (let v = (if c = x then d else min (d + 1) (min (left + 1) (a + 1)))
      in v # fillRow c xs (a # rest) v)"
| "fillRow c xs prev left = []"

fun finalRow :: "string \<Rightarrow> nat list \<Rightarrow> nat \<Rightarrow> string \<Rightarrow> nat list" where
  "finalRow str1 prev i [] = prev"
| "finalRow str1 prev i (c # cs) = finalRow str1 (i # fillRow c str1 prev i) (Suc i) cs"

definition calculateEditDistance :: "string \<Rightarrow> string \<Rightarrow> nat" where
  "calculateEditDistance str1 str2 = last (finalRow str1 [0..<Suc (length str1)] 1 str2)"

definition calculateSimilarity :: "string \<Rightarrow> string \<Rightarrow> rat" where
  "calculateSimilarity str1 str2 =
     (let longer = (if length str1 > length str2 then str1 else str2);
          shorter = (if length str1 > length str2 then str2 else str1)
      in if length longer = 0 then 1
         else let editDistance = calculateEditDistance longer shorter
              in of_int (int (length longer) - int editDistance) / of_int (int (length longer)))"

text \<open>The loop of \<^verbatim>\<open>findSimilarRoute\<close> over the keys of the route table, in insertion order.\<close>

fun bestMatchLoop :: "string \<Rightarrow> string list \<Rightarrow> string option \<Rightarrow> rat \<Rightarrow> string option" where
  "bestMatchLoop p [] bestMatch bestScore = bestMatch"
| "bestMatchLoop p (route # rs) bestMatch bestScore =
     (let score = calculateSimilarity p route
      in if score > bestScore \<and> score > 6 / 10
         then bestMatchLoop p rs (Some route) score
         else bestMatchLoop p rs bestMatch bestScore)"

text \<open>The textbook recurrence, on lists read from the front; used to reason about the matrix.\<close>

fun lev :: "string \<Rightarrow> string \<Rightarrow> nat" where
  "lev [] ys = length ys"
| "lev (x # xs) [] = Suc (length xs)"
| "lev (x # xs) (y # ys) =
     (if x = y then lev xs ys
      else min (lev xs ys + 1) (min (lev (x # xs) ys + 1) (lev xs (y # ys) + 1)))"

fun exts :: "string \<Rightarrow> string \<Rightarrow> string list" where
  "exts pre [] = [pre]"
| "exts pre (x # xs) = pre # exts (pre @ [x]) xs"

subsection \<open>Values, callbacks and routes\<close>

datatype pathArg = JUndefined | JNull | JStr string

datatype error = TypeError | RegistrationError | DOMError

datatype cb_result = RetFalse | RetOther | Throws

text \<open>
  A listener is called with the target path and the current (or previous) route; a guard with
  the path of its route and the current route of the router it is given; a handler with the
  path of its route.
\<close>

type_synonym listener = "string \<Rightarrow> string option \<Rightarrow> cb_result"
type_synonym handler = "string \<Rightarrow> cb_result"

record route =
  path :: string
  handler :: handler
  title :: string
  meta :: "(string \<times> string) list"
  beforeEnter :: "listener option"
  afterEnter :: "listener option"
  routeData :: "(string \<times> string) list"
  cache :: bool
  transition :: string

text \<open>The \<^verbatim>\<open>options\<close> argument of \<^verbatim>\<open>addRoute\<close>; \<open>None\<close> is a missing property.\<close>

record routeOptions =
  optTitle :: "string option"
  optMeta :: "(string \<times> string) list option"
  optBeforeEnter :: "listener option"
  optAfterEnter :: "listener option"
  optData :: "(string \<times> string) list option"
  optCache :: "bool option"
  optTransition :: "string option"

text \<open>The options that \<^verbatim>\<open>navigate\<close> reads; it reads no other property of its argument.\<close>

record navOptions =
  force :: bool
  fromHashChange :: bool
  skipTransition :: bool
  skipScroll :: bool

definition noOptions :: navOptions where
  "noOptions = \<lparr>force = False, fromHashChange = False, skipTransition = False, skipScroll = False\<rparr>"

record config =
  hashPrefix :: string
  defaultRoute :: string
  scrollOffset :: nat
  animationDuration :: nat
  enableTransitions :: bool
  enableAnalytics :: bool

definition defaultConfig :: config where
  "defaultConfig = \<lparr>hashPrefix = ''#'', defaultRoute = ''home'', scrollOffset = 70,
     animationDuration = 600, enableTransitions = True, enableAnalytics = False\<rparr>"

record entry =
  entryPath :: string
  entryRoute :: string
  timestamp :: nat

datatype errorType = Initialization | Navigation | Handler

datatype event =
    RouterReady
  | RouterNavigated "string option" string
  | RouterPageview string
  | RouterError errorType

text \<open>The calls into the browser that may throw inside the \<^verbatim>\<open>try\<close> block of \<^verbatim>\<open>navigate\<close>.\<close>

datatype step = PushState | Transition | PageMeta | NavigationState | Scroll | Analytics

text \<open>
  What the router reads and writes of \<^verbatim>\<open>window\<close> and \<^verbatim>\<open>document\<close>. \<open>fragment\<close> is the part of
  the address after \<^verbatim>\<open>#\<close> (\<open>None\<close>: the address has no \<^verbatim>\<open>#\<close>); \<open>handlerCalls\<close> lists the routes
  whose handler has been invoked; \<open>domThrows\<close> tells which browser calls throw.
\<close>

record browser =
  origin :: string
  pathname :: string
  search :: string
  fragment :: "string option"
  historyLength :: nat
  documentTitle :: string
  dispatched :: "event list"
  handlerCalls :: "string list"
  domThrows :: "step \<Rightarrow> bool"
  now :: nat

record router =
  routes :: "(string \<times> route) list"
  currentRoute :: "string option"
  previousRoute :: "string option"
  isNavigating :: bool
  config :: config
  beforeRoute :: "listener list"
  afterRoute :: "listener list"
  routeError :: "(errorType \<Rightarrow> cb_result) list"
  history :: "entry list"
  navigationMetrics :: "(string \<times> nat) list"
  window :: browser

definition maxHistoryLength :: nat where
  "maxHistoryLength = 50"

definition constructor :: "config \<Rightarrow> browser \<Rightarrow> router" where
  "constructor cfg w =
     \<lparr>routes = [], currentRoute = None, previousRoute = None, isNavigating = False,
      config = cfg, beforeRoute = [], afterRoute = [], routeError = [], history = [],
      navigationMetrics = [], window = w\<rparr>"

subsection \<open>The route table\<close>

text \<open>A JavaScript \<^verbatim>\<open>Map\<close>: keys in insertion order, \<^verbatim>\<open>set\<close> on a present key keeps its place.\<close>

fun mapSet :: "'k \<Rightarrow> 'v \<Rightarrow> ('k \<times> 'v) list \<Rightarrow> ('k \<times> 'v) list" where
  "mapSet k v [] = [(k, v)]"
| "mapSet k v ((k', v') # m) = (if k' = k then (k, v) # m else (k', v') # mapSet k v m)"

definition mapGet :: "('k \<times> 'v) list \<Rightarrow> 'k \<Rightarrow> 'v option" where
  "mapGet m k = map_of m k"

definition mapHas :: "('k \<times> 'v) list \<Rightarrow> 'k \<Rightarrow> bool" where
  "mapHas m k = (mapGet m k \<noteq> None)"

definition mapDelete :: "'k \<Rightarrow> ('k \<times> 'v) list \<Rightarrow> ('k \<times> 'v) list" where
  "mapDelete k m = filter (\<lambda>kv. fst kv \<noteq> k) m"

text \<open>\<^verbatim>\<open>path ? path.toLowerCase().trim() : this.config.defaultRoute\<close>\<close>

definition normalizePath :: "config \<Rightarrow> pathArg \<Rightarrow> string" where
  "normalizePath cfg p =
     (case p of
        JStr s \<Rightarrow> (if s \<noteq> [] then trim (toLowerCase s) else defaultRoute cfg)
      | JNull \<Rightarrow> defaultRoute cfg
      | JUndefined \<Rightarrow> defaultRoute cfg)"

text \<open>
  \<^verbatim>\<open>addRoute\<close> throws unless the path is a string and the handler a function (\<open>None\<close>: the
  handler argument is not a function).
\<close>

definition addRoute :: "pathArg \<Rightarrow> handler option \<Rightarrow> routeOptions \<Rightarrow> router \<Rightarrow> error + router" where
  "addRoute p h opts r =
     (case (p, h) of
        (JStr s, Some f) \<Rightarrow>
          Inr (r\<lparr>routes := mapSet (toLowerCase s)
                 \<lparr>path = toLowerCase s,
                  handler = f,
                  title = (case optTitle opts of
                             None \<Rightarrow> formatTitle s
                           | Some t \<Rightarrow> if t \<noteq> [] then t else formatTitle s),
                  meta = (case optMeta opts of None \<Rightarrow> [] | Some m \<Rightarrow> m),
                  beforeEnter = optBeforeEnter opts,
                  afterEnter = optAfterEnter opts,
                  routeData = (case optData opts of None \<Rightarrow> [] | Some d \<Rightarrow> d),
                  cache = (optCache opts \<noteq> Some False),
                  transition = (case optTransition opts of
                                  None \<Rightarrow> ''fade''
                                | Some t \<Rightarrow> if t \<noteq> [] then t else ''fade'')\<rparr>
                 (routes r)\<rparr>)
      | _ \<Rightarrow> Inl RegistrationError)"

definition removeRoute :: "string \<Rightarrow> router \<Rightarrow> bool \<times> router" where
  "removeRoute s r =
     (mapHas (routes r) (toLowerCase s), r\<lparr>routes := mapDelete (toLowerCase s) (routes r)\<rparr>)"

definition hasRoute :: "router \<Rightarrow> pathArg \<Rightarrow> bool" where
  "hasRoute r p = mapHas (routes r) (normalizePath (config r) p)"

text \<open>
  \<^verbatim>\<open>findSimilarRoute(path)\<close>: \<^verbatim>\<open>calculateSimilarity\<close> reads \<^verbatim>\<open>str1.length\<close>, which throws a
  \<^verbatim>\<open>TypeError\<close> on \<^verbatim>\<open>null\<close> and \<^verbatim>\<open>undefined\<close> as soon as the table has one route.
\<close>

definition findSimilarRoute :: "router \<Rightarrow> pathArg \<Rightarrow> error + string option" where
  "findSimilarRoute r p =
     (case p of
        JStr s \<Rightarrow> Inr (bestMatchLoop s (map fst (routes r)) None 0)
      | _ \<Rightarrow> if routes r = [] then Inr None else Inl TypeError)"

subsection \<open>Navigation\<close>

text \<open>
  A statement of the \<^verbatim>\<open>try\<close> block of \<^verbatim>\<open>navigate\<close> either falls through to the next one,
  returns a value from \<^verbatim>\<open>navigate\<close>, or throws. The block as a whole returns or throws.
\<close>

datatype flow = Continue | Return bool | Raise error

datatype outcome = Returned bool | Raised error

type_synonym act = "router \<Rightarrow> flow \<times> router"

definition dispatchEvent :: "event \<Rightarrow> router \<Rightarrow> router" where
  "dispatchEvent ev r = r\<lparr>window := (window r)\<lparr>dispatched := dispatched (window r) @ [ev]\<rparr>\<rparr>"

text \<open>
  \<^verbatim>\<open>handleError\<close> calls each \<^verbatim>\<open>routeError\<close> listener inside its own \<^verbatim>\<open>try / catch\<close> and then
  dispatches \<^verbatim>\<open>router:error\<close>.
\<close>

definition handleError :: "errorType \<Rightarrow> router \<Rightarrow> router" where
  "handleError ty r = dispatchEvent (RouterError ty) r"

definition domCall :: "step \<Rightarrow> act" where
  "domCall s r = (if domThrows (window r) s then (Raise DOMError, r) else (Continue, r))"

text \<open>Lines 141 to 146: the same route, not forced.\<close>

definition sameRouteCheck :: "string \<Rightarrow> navOptions \<Rightarrow> act" where
  "sameRouteCheck normalizedPath opts r =
     (if currentRoute r = Some normalizedPath \<and> \<not> force opts
      then (Return True, r\<lparr>isNavigating := False\<rparr>)
      else (Continue, r))"

definition storePreviousRoute :: act where
  "storePreviousRoute r = (Continue, r\<lparr>previousRoute := currentRoute r\<rparr>)"

text \<open>
  \<^verbatim>\<open>runBeforeListeners\<close>: the first listener that returns \<^verbatim>\<open>false\<close> ends the loop; a listener
  that throws is logged and skipped.
\<close>

fun beforeLoop :: "listener list \<Rightarrow> string \<Rightarrow> string option \<Rightarrow> bool" where
  "beforeLoop [] p cur = True"
| "beforeLoop (l # ls) p cur =
     (case l p cur of
        RetFalse \<Rightarrow> False
      | RetOther \<Rightarrow> beforeLoop ls p cur
      | Throws \<Rightarrow> beforeLoop ls p cur)"

definition runBeforeListeners :: "string \<Rightarrow> router \<Rightarrow> bool" where
  "runBeforeListeners p r = beforeLoop (beforeRoute r) p (currentRoute r)"

definition beforeListenersStep :: "string \<Rightarrow> act" where
  "beforeListenersStep normalizedPath r =
     (if runBeforeListeners normalizedPath r then (Continue, r)
      else (Return False, r\<lparr>isNavigating := False\<rparr>))"

text \<open>\<^verbatim>\<open>runGuard\<close>: a guard that throws counts as \<^verbatim>\<open>false\<close>.\<close>

definition runGuard :: "listener \<Rightarrow> route \<Rightarrow> router \<Rightarrow> cb_result" where
  "runGuard g rt r =
     (case g (path rt) (currentRoute r) of
        Throws \<Rightarrow> RetFalse
      | RetFalse \<Rightarrow> RetFalse
      | RetOther \<Rightarrow> RetOther)"

definition beforeEnterStep :: "route \<Rightarrow> act" where
  "beforeEnterStep rt r =
     (case beforeEnter rt of
        None \<Rightarrow> (Continue, r)
      | Some g \<Rightarrow>
          if runGuard g rt r = RetFalse then (Return False, r\<lparr>isNavigating := False\<rparr>)
          else (Continue, r))"

definition href :: "browser \<Rightarrow> string" where
  "href w = origin w @ pathname w @ search w @ (case fragment w of None \<Rightarrow> [] | Some f \<Rightarrow> CHR ''#'' # f)"

definition updateURL :: "string \<Rightarrow> act" where
  "updateURL p r =
     (let newURL = pathname (window r) @ search (window r) @ CHR ''#'' # p
      in if href (window r) \<noteq> newURL
         then (if domThrows (window r) PushState then (Raise DOMError, r)
               else (Continue, r\<lparr>window := (window r)\<lparr>fragment := Some p,
                                      historyLength := Suc (historyLength (window r))\<rparr>\<rparr>))
         else (Continue, r))"

definition updateURLStep :: "string \<Rightarrow> navOptions \<Rightarrow> act" where
  "updateURLStep normalizedPath opts r =
     (if \<not> fromHashChange opts then updateURL normalizedPath r else (Continue, r))"

definition setCurrentRoute :: "string \<Rightarrow> act" where
  "setCurrentRoute normalizedPath r = (Continue, r\<lparr>currentRoute := Some normalizedPath\<rparr>)"

definition addToHistory :: "string \<Rightarrow> route \<Rightarrow> router \<Rightarrow> router" where
  "addToHistory p rt r =
     (if history r \<noteq> [] \<and> entryPath (last (history r)) = p then r
      else
        let pushed = history r @ [\<lparr>entryPath = p, entryRoute = title rt, timestamp = now (window r)\<rparr>]
        in r\<lparr>history := (if length pushed > maxHistoryLength then tl pushed else pushed)\<rparr>)"

definition addToHistoryStep :: "string \<Rightarrow> route \<Rightarrow> act" where
  "addToHistoryStep normalizedPath rt r = (Continue, addToHistory normalizedPath rt r)"

text \<open>
  \<^verbatim>\<open>handleTransition\<close> toggles a class of \<^verbatim>\<open>document.body\<close> around a timer; the class is not part
  of the state here.
\<close>

definition handleTransition :: "route \<Rightarrow> act" where
  "handleTransition rt r = domCall Transition r"

definition transitionStep :: "route \<Rightarrow> navOptions \<Rightarrow> act" where
  "transitionStep rt opts r =
     (if enableTransitions (config r) \<and> \<not> skipTransition opts then handleTransition rt r
      else (Continue, r))"

text \<open>\<^verbatim>\<open>executeRoute\<close>: a handler that throws is reported and navigation goes on.\<close>

definition executeRoute :: "route \<Rightarrow> act" where
  "executeRoute rt r =
     (let called = r\<lparr>window := (window r)\<lparr>handlerCalls := handlerCalls (window r) @ [path rt]\<rparr>\<rparr>
      in case handler rt (path rt) of
           Throws \<Rightarrow> (Continue, handleError Handler called)
         | RetFalse \<Rightarrow> (Continue, called)
         | RetOther \<Rightarrow> (Continue, called))"

text \<open>\<^verbatim>\<open>updatePageMeta\<close>: the title first, then the meta tags and the canonical link.\<close>

definition updatePageMeta :: "route \<Rightarrow> act" where
  "updatePageMeta rt r =
     domCall PageMeta
       (if title rt \<noteq> [] then r\<lparr>window := (window r)\<lparr>documentTitle := title rt\<rparr>\<rparr> else r)"

definition updateNavigationState :: "string \<Rightarrow> act" where
  "updateNavigationState p r = domCall NavigationState r"

definition scrollStep :: "string \<Rightarrow> navOptions \<Rightarrow> act" where
  "scrollStep normalizedPath opts r =
     (if \<not> skipScroll opts then domCall Scroll r else (Continue, r))"

text \<open>
  \<^verbatim>\<open>runAfterListeners\<close> and the \<^verbatim>\<open>afterEnter\<close> hook: what the callbacks return is not used, and
  what they throw is caught.
\<close>

definition runAfterListeners :: "string \<Rightarrow> act" where
  "runAfterListeners p r = (Continue, r)"

definition afterEnterStep :: "route \<Rightarrow> act" where
  "afterEnterStep rt r = (Continue, r)"

text \<open>\<^verbatim>\<open>trackNavigation\<close>: of a metric, the count is kept (the duration is a reading of a clock).\<close>

definition trackNavigation :: "string \<Rightarrow> act" where
  "trackNavigation p r =
     (Continue,
      r\<lparr>navigationMetrics :=
          mapSet p (case mapGet (navigationMetrics r) p of None \<Rightarrow> 1 | Some n \<Rightarrow> n + 1)
            (navigationMetrics r)\<rparr>)"

definition trackPageView :: "string \<Rightarrow> route \<Rightarrow> act" where
  "trackPageView p rt r =
     (if domThrows (window r) Analytics then (Raise DOMError, r)
      else (Continue, dispatchEvent (RouterPageview p) r))"

definition analyticsStep :: "string \<Rightarrow> route \<Rightarrow> act" where
  "analyticsStep normalizedPath rt r =
     (if enableAnalytics (config r) then trackPageView normalizedPath rt r else (Continue, r))"

definition dispatchNavigated :: "string \<Rightarrow> act" where
  "dispatchNavigated normalizedPath r =
     (Continue, dispatchEvent (RouterNavigated (previousRoute r) normalizedPath) r)"

text \<open>Lines 141 to 221, in order; the block ends with \<^verbatim>\<open>return true\<close>.\<close>

definition navigationSteps :: "string \<Rightarrow> route \<Rightarrow> navOptions \<Rightarrow> act list" where
  "navigationSteps normalizedPath rt opts =
     [sameRouteCheck normalizedPath opts,
      storePreviousRoute,
      beforeListenersStep normalizedPath,
      beforeEnterStep rt,
      updateURLStep normalizedPath opts,
      setCurrentRoute normalizedPath,
      addToHistoryStep normalizedPath rt,
      transitionStep rt opts,
      executeRoute rt,
      updatePageMeta rt,
      updateNavigationState normalizedPath,
      scrollStep normalizedPath opts,
      runAfterListeners normalizedPath,
      afterEnterStep rt,
      trackNavigation normalizedPath,
      analyticsStep normalizedPath rt,
      dispatchNavigated normalizedPath]"

fun runSteps :: "act list \<Rightarrow> router \<Rightarrow> outcome \<times> router" where
  "runSteps [] r = (Returned True, r)"
| "runSteps (a # as) r =
     (case a r of
        (Continue, r') \<Rightarrow> runSteps as r'
      | (Return b, r') \<Rightarrow> (Returned b, r')
      | (Raise e, r') \<Rightarrow> (Raised e, r'))"

text \<open>The \<^verbatim>\<open>catch\<close> and the \<^verbatim>\<open>finally\<close> of \<^verbatim>\<open>navigate\<close>.\<close>

definition catchFinally :: "outcome \<times> router \<Rightarrow> bool \<times> router" where
  "catchFinally x =
     (case x of
        (Returned b, r) \<Rightarrow> (b, r\<lparr>isNavigating := False\<rparr>)
      | (Raised e, r) \<Rightarrow> (False, (handleError Navigation r)\<lparr>isNavigating := False\<rparr>))"

text \<open>
  \<^verbatim>\<open>navigate\<close> and \<^verbatim>\<open>handleNotFound\<close> call each other: \<^verbatim>\<open>handleNotFound\<close> is called inside the
  \<^verbatim>\<open>try\<close> block, after \<^verbatim>\<open>isNavigating\<close> has been set, and calls \<^verbatim>\<open>this.navigate\<close>.
\<close>

function navigate :: "pathArg \<Rightarrow> navOptions \<Rightarrow> router \<Rightarrow> bool \<times> router"
  and handleNotFound :: "pathArg \<Rightarrow> router \<Rightarrow> outcome \<times> router" where
  "navigate p opts r =
     (if isNavigating r then (False, r)
      else
        let r1 = r\<lparr>isNavigating := True\<rparr>;
            normalizedPath = normalizePath (config r1) p
        in catchFinally
             (case mapGet (routes r1) normalizedPath of
                None \<Rightarrow> handleNotFound p r1
              | Some rt \<Rightarrow> runSteps (navigationSteps normalizedPath rt opts) r1))"
| "handleNotFound p r =
     (case findSimilarRoute r p of
        Inl e \<Rightarrow> (Raised e, r)
      | Inr (Some similarRoute) \<Rightarrow>
          (let (b, r') = navigate (JStr similarRoute) noOptions r in (Returned b, r'))
      | Inr None \<Rightarrow>
          (let (b, r') = navigate (JStr (defaultRoute (config r))) noOptions r in (Returned b, r')))"
  by pat_completeness auto
termination
  by (relation "measure (\<lambda>x. case x of
         Inl (p, opts, r) \<Rightarrow> (if isNavigating r then 0 else 2)
       | Inr (p, r) \<Rightarrow> (if isNavigating r then 1 else 3))") auto

declare navigate.simps [simp del] handleNotFound.simps [simp del]

subsection \<open>History, events of the browser and the other methods\<close>

text \<open>
  \<^verbatim>\<open>back()\<close> (here \<open>goBack\<close>; \<^verbatim>\<open>forward()\<close> is \<open>goForward\<close>): with more than one entry, the last one is popped and the router navigates to the
  new last one. \<^verbatim>\<open>window.history.back()\<close> changes nothing at once; the browser answers with a
  \<^verbatim>\<open>popstate\<close> event later.
\<close>

definition backFallback :: "router \<Rightarrow> bool \<times> router" where
  "backFallback r =
     (if historyLength (window r) > 1 then (True, r)
      else navigate (JStr (defaultRoute (config r))) noOptions r)"

definition goBack :: "router \<Rightarrow> bool \<times> router" where
  "goBack r =
     (if length (history r) > 1
      then (let r1 = r\<lparr>history := butlast (history r)\<rparr>
            in if history r1 \<noteq> []
               then navigate (JStr (entryPath (last (history r1)))) noOptions r1
               else backFallback r1)
      else backFallback r)"

definition goForward :: "router \<Rightarrow> bool \<times> router" where
  "goForward r = (True, r)"

definition replaceRoute :: "pathArg \<Rightarrow> router \<Rightarrow> bool \<times> router" where
  "replaceRoute p r = navigate p noOptions r"

definition clearHistory :: "router \<Rightarrow> router" where
  "clearHistory r = r\<lparr>history := [], navigationMetrics := []\<rparr>"

definition cleanup :: "router \<Rightarrow> router" where
  "cleanup r =
     r\<lparr>routes := [], history := [], navigationMetrics := [],
       beforeRoute := [], afterRoute := [], routeError := []\<rparr>"

text \<open>\<^verbatim>\<open>window.location.hash\<close> is empty when the address has no fragment or an empty one.\<close>

definition locationHash :: "browser \<Rightarrow> string" where
  "locationHash w =
     (case fragment w of None \<Rightarrow> [] | Some f \<Rightarrow> if f = [] then [] else CHR ''#'' # f)"

definition getPathFromURL :: "router \<Rightarrow> pathArg" where
  "getPathFromURL r =
     (let hash = locationHash (window r) in if hash \<noteq> [] then JStr (tl hash) else JNull)"

text \<open>\<^verbatim>\<open>path !== this.currentRoute\<close>, where \<^verbatim>\<open>currentRoute\<close> is a string or \<^verbatim>\<open>null\<close>.\<close>

definition differsFromCurrent :: "pathArg \<Rightarrow> string option \<Rightarrow> bool" where
  "differsFromCurrent p cur =
     (case p of
        JStr s \<Rightarrow> cur \<noteq> Some s
      | JNull \<Rightarrow> cur \<noteq> None
      | JUndefined \<Rightarrow> True)"

definition handleHashChange :: "router \<Rightarrow> router" where
  "handleHashChange r =
     (let hash = locationHash (window r);
          p = (if hash \<noteq> [] then tl hash else defaultRoute (config r))
      in if differsFromCurrent (JStr p) (currentRoute r)
         then snd (navigate (JStr p) (noOptions\<lparr>fromHashChange := True\<rparr>) r)
         else r)"

definition handlePopState :: "router \<Rightarrow> router" where
  "handlePopState r =
     (let p = getPathFromURL r
      in if differsFromCurrent p (currentRoute r) then snd (navigate p noOptions r) else r)"

text \<open>
  The calls a page can make on a router, and the two events of the browser it listens to (the
  browser has changed the fragment of the address before the event fires). A call of
  \<^verbatim>\<open>addRoute\<close> that throws leaves the router as it was.
\<close>

datatype operation =
    AddRoute pathArg "handler option" routeOptions
  | RemoveRoute string
  | Navigate pathArg navOptions
  | Back
  | Forward
  | Replace pathArg
  | OnBeforeRoute listener
  | OnAfterRoute listener
  | OnRouteError "errorType \<Rightarrow> cb_result"
  | ClearHistory
  | Cleanup
  | HashChange "string option"
  | PopState "string option"

fun perform :: "operation \<Rightarrow> router \<Rightarrow> router" where
  "perform (AddRoute p h opts) r = (case addRoute p h opts r of Inl e \<Rightarrow> r | Inr r' \<Rightarrow> r')"
| "perform (RemoveRoute s) r = snd (removeRoute s r)"
| "perform (Navigate p opts) r = snd (navigate p opts r)"
| "perform Back r = snd (goBack r)"
| "perform Forward r = snd (goForward r)"
| "perform (Replace p) r = snd (replaceRoute p r)"
| "perform (OnBeforeRoute l) r = r\<lparr>beforeRoute := beforeRoute r @ [l]\<rparr>"
| "perform (OnAfterRoute l) r = r\<lparr>afterRoute := afterRoute r @ [l]\<rparr>"
| "perform (OnRouteError l) r = r\<lparr>routeError := routeError r @ [l]\<rparr>"
| "perform ClearHistory r = clearHistory r"
| "perform Cleanup r = cleanup r"
| "perform (HashChange f) r = handleHashChange (r\<lparr>window := (window r)\<lparr>fragment := f\<rparr>\<rparr>)"
| "perform (PopState f) r = handlePopState (r\<lparr>window := (window r)\<lparr>fragment := f\<rparr>\<rparr>)"

definition run :: "operation list \<Rightarrow> router \<Rightarrow> router" where
  "run ops r = foldl (\<lambda>s op. perform op s) r ops"

subsection \<open>Auxiliary notions and sample states\<close>

text \<open>The cell of the matrix for a prefix \<open>q\<close> of \<^verbatim>\<open>str2\<close> and a prefix \<open>t\<close> of \<^verbatim>\<open>str1\<close>.\<close>

definition cell :: "string \<Rightarrow> string \<Rightarrow> nat" where
  "cell q t = lev (rev q) (rev t)"

definition historyBounded :: "router \<Rightarrow> bool" where
  "historyBounded r = (length (history r) \<le> maxHistoryLength)"

text \<open>
  A navigation to \<open>rt\<close> is vetoed when a global before-listener returns \<^verbatim>\<open>false\<close>, or the
  \<^verbatim>\<open>beforeEnter\<close> guard of \<open>rt\<close> does (or throws).
\<close>

definition vetoed :: "string \<Rightarrow> route \<Rightarrow> router \<Rightarrow> bool" where
  "vetoed normalizedPath rt r =
     (\<not> runBeforeListeners normalizedPath r
      \<or> (case beforeEnter rt of None \<Rightarrow> False | Some g \<Rightarrow> runGuard g rt r = RetFalse))"

text \<open>
  What is followed through the statements of a navigation that goes through: no browser call
  throws, and the current route, the previous route and the list of handler calls are the
  given ones.
\<close>

definition tracked :: "string option \<Rightarrow> string option \<Rightarrow> string list \<Rightarrow> router \<Rightarrow> bool" where
  "tracked cur prev calls s =
     ((\<forall>st. \<not> domThrows (window s) st) \<and> currentRoute s = cur \<and> previousRoute s = prev
      \<and> handlerCalls (window s) = calls)"

definition falsy :: "pathArg \<Rightarrow> bool" where
  "falsy p = (case p of JNull \<Rightarrow> True | JUndefined \<Rightarrow> True | JStr s \<Rightarrow> s = [])"

definition plainBrowser :: browser where
  "plainBrowser =
     \<lparr>origin = ''https://mariofcano.github.io'', pathname = ''/'', search = [], fragment = None,
      historyLength = 1, documentTitle = [], dispatched = [], handlerCalls = [],
      domThrows = (\<lambda>s. False), now = 0\<rparr>"

definition okHandler :: handler where
  "okHandler p = RetOther"

definition denyAll :: listener where
  "denyAll p cur = RetFalse"

definition noRouteOptions :: routeOptions where
  "noRouteOptions =
     \<lparr>optTitle = None, optMeta = None, optBeforeEnter = None, optAfterEnter = None,
      optData = None, optCache = None, optTransition = None\<rparr>"

text \<open>The route that \<^verbatim>\<open>addRoute(p, handler)\<close> stores when no option is given.\<close>

definition plainRoute :: "string \<Rightarrow> string \<Rightarrow> route" where
  "plainRoute p t =
     \<lparr>path = p, handler = okHandler, title = t, meta = [], beforeEnter = None,
      afterEnter = None, routeData = [], cache = True, transition = ''fade''\<rparr>"

text \<open>A fresh router with the routes \<^verbatim>\<open>home\<close>, \<^verbatim>\<open>about\<close> and \<^verbatim>\<open>contact\<close>.\<close>

definition threeRoutes :: router where
  "threeRoutes =
     run [AddRoute (JStr ''home'') (Some okHandler) noRouteOptions,
          AddRoute (JStr ''about'') (Some okHandler) noRouteOptions,
          AddRoute (JStr ''contact'') (Some okHandler) noRouteOptions]
       (constructor defaultConfig plainBrowser)"

text \<open>A fresh router with the route \<^verbatim>\<open>about\<close> alone: the default route \<^verbatim>\<open>home\<close> is not registered.\<close>

definition onlyAbout :: router where
  "onlyAbout =
     run [AddRoute (JStr ''about'') (Some okHandler) noRouteOptions]
       (constructor defaultConfig plainBrowser)"

text \<open>The router with three routes and a global before-listener that returns \<^verbatim>\<open>false\<close>.\<close>

definition denyingRouter :: router where
  "denyingRouter = threeRoutes\<lparr>beforeRoute := [denyAll]\<rparr>"

text \<open>The router with three routes, placed on \<^verbatim>\<open>home\<close>.\<close>

definition homeCurrent :: router where
  "homeCurrent = threeRoutes\<lparr>currentRoute := Some ''home''\<rparr>"

text \<open>The same router while a navigation is in flight.\<close>

definition busyRouter :: router where
  "busyRouter = threeRoutes\<lparr>isNavigating := True\<rparr>"

text \<open>The same router in a browser whose \<^verbatim>\<open>pushState\<close> throws.\<close>

definition throwingRouter :: router where
  "throwingRouter = threeRoutes\<lparr>window := plainBrowser\<lparr>domThrows := (\<lambda>s. s = PushState)\<rparr>\<rparr>"

text \<open>On \<^verbatim>\<open>home\<close>; then with a global before-listener that returns \<^verbatim>\<open>false\<close>.\<close>

definition onHome :: router where
  "onHome = run [Navigate (JStr ''home'') noOptions] threeRoutes"

definition vetoRouter :: router where
  "vetoRouter = run [OnBeforeRoute denyAll] onHome"

text \<open>On \<^verbatim>\<open>home\<close>, with a route \<^verbatim>\<open>admin\<close> whose \<^verbatim>\<open>beforeEnter\<close> guard returns \<^verbatim>\<open>false\<close>.\<close>

definition guardedRouter :: router where
  "guardedRouter =
     run [AddRoute (JStr ''admin'') (Some okHandler) (noRouteOptions\<lparr>optBeforeEnter := Some denyAll\<rparr>)]
       onHome"

text \<open>On \<^verbatim>\<open>contact\<close>; the same while another navigation is in flight; and with the route removed.\<close>

definition onContact :: router where
  "onContact = run [Navigate (JStr ''contact'') noOptions] threeRoutes"

definition onContactBusy :: router where
  "onContactBusy = onContact\<lparr>isNavigating := True\<rparr>"

definition contactRemoved :: router where
  "contactRemoved = run [RemoveRoute ''contact''] onContact"

text \<open>A router whose history list is full: fifty entries, the last one for \<^verbatim>\<open>about\<close>.\<close>

definition fullRouter :: router where
  "fullRouter =
     threeRoutes\<lparr>currentRoute := Some ''about'', previousRoute := Some ''home'',
       history := map (\<lambda>i. if even i
                            then \<lparr>entryPath = ''home'', entryRoute = ''Home'', timestamp = i\<rparr>
                            else \<lparr>entryPath = ''about'', entryRoute = ''About'', timestamp = i\<rparr>)
                    [0..<50]\<rparr>"

section \<open>Properties\<close>

subsection \<open>The matrix computes the recurrence\<close>

lemma exts_hd: "exts pre xs = pre # tl (exts pre xs)"
  by (cases xs) simp_all

lemma exts_not_Nil: "exts pre xs \<noteq> []"
  by (cases xs) simp_all

lemma exts_last: "last (exts pre xs) = pre @ xs"
  by (induction xs arbitrary: pre) (simp_all add: exts_not_Nil)

lemma upt_step: "[n..<Suc (n + Suc m)] = n # [Suc n..<Suc (Suc n + m)]"
  by (simp add: upt_conv_Cons)

lemma exts_lengths: "map length (exts pre xs) = [length pre..<Suc (length pre + length xs)]"
proof (induction xs arbitrary: pre)
  case Nil
  show ?case by simp
next
  case (Cons x xs)
  have "map length (exts pre (x # xs)) = length pre # map length (exts (pre @ [x]) xs)"
    by simp
  also have "\<dots> = length pre # [Suc (length pre)..<Suc (Suc (length pre) + length xs)]"
    by (simp only: Cons.IH length_append_singleton)
  also have "\<dots> = [length pre..<Suc (length pre + length (x # xs))]"
    by (simp only: upt_step length_Cons)
  finally show ?case .
qed

lemma cell_snoc:
  "cell (q @ [c]) (pre @ [x]) =
     (if c = x then cell q pre
      else min (cell q pre + 1) (min (cell (q @ [c]) pre + 1) (cell q (pre @ [x]) + 1)))"
  by (simp add: cell_def)

text \<open>The inner loop: from the cells of one row to the cells of the next.\<close>

lemma fillRow_cells:
  "fillRow c xs (map (cell q) (exts pre xs)) (cell (q @ [c]) pre)
     = map (cell (q @ [c])) (tl (exts pre xs))"
proof (induction xs arbitrary: pre)
  case Nil
  show ?case by simp
next
  case (Cons x xs)
  obtain t where e: "exts (pre @ [x]) xs = (pre @ [x]) # t"
    using exts_hd [of "pre @ [x]" xs] by blast
  have ih: "fillRow c xs (cell q (pre @ [x]) # map (cell q) t) (cell (q @ [c]) (pre @ [x]))
              = map (cell (q @ [c])) t"
    using Cons.IH [of "pre @ [x]"] by (simp only: e list.map list.sel)
  have "fillRow c (x # xs) (map (cell q) (exts pre (x # xs))) (cell (q @ [c]) pre)
          = fillRow c (x # xs) (cell q pre # cell q (pre @ [x]) # map (cell q) t) (cell (q @ [c]) pre)"
    by (simp only: exts.simps e list.map)
  also have "\<dots> = cell (q @ [c]) (pre @ [x])
          # fillRow c xs (cell q (pre @ [x]) # map (cell q) t) (cell (q @ [c]) (pre @ [x]))"
    by (simp only: fillRow.simps Let_def cell_snoc [symmetric])
  also have "\<dots> = map (cell (q @ [c])) (tl (exts pre (x # xs)))"
    by (simp only: ih exts.simps e list.map list.sel)
  finally show ?case .
qed

text \<open>The outer loop.\<close>

lemma finalRow_cells:
  "finalRow str1 (map (cell q) (exts [] str1)) (Suc (length q)) cs
     = map (cell (q @ cs)) (exts [] str1)"
proof (induction cs arbitrary: q)
  case Nil
  show ?case by simp
next
  case (Cons c cs)
  have i: "Suc (length q) = cell (q @ [c]) []"
    by (simp add: cell_def)
  have "Suc (length q) # fillRow c str1 (map (cell q) (exts [] str1)) (Suc (length q))
        = cell (q @ [c]) [] # map (cell (q @ [c])) (tl (exts [] str1))"
    using fillRow_cells [of c str1 q "[]"] i by simp
  also have "\<dots> = map (cell (q @ [c])) (exts [] str1)"
    by (subst (2) exts_hd) simp
  finally show ?case
    using Cons.IH [of "q @ [c]"] by simp
qed

lemma calculateEditDistance_lev:
  "calculateEditDistance str1 str2 = lev (rev str2) (rev str1)"
proof -
  have "[0..<Suc (length str1)] = map (cell []) (exts [] str1)"
    using exts_lengths [of "[]" str1] by (simp add: cell_def map_idI cong: map_cong)
  then have "finalRow str1 [0..<Suc (length str1)] 1 str2 = map (cell str2) (exts [] str1)"
    using finalRow_cells [of str1 "[]" str2] by simp
  then show ?thesis
    by (simp add: calculateEditDistance_def last_map exts_not_Nil exts_last cell_def)
qed

lemma lev_Nil2: "lev xs [] = length xs"
  by (cases xs) simp_all

lemma lev_sym: "lev xs ys = lev ys xs"
  by (induction xs ys rule: lev.induct) (simp_all add: lev_Nil2 min.commute)

lemma lev_le_max: "lev xs ys \<le> max (length xs) (length ys)"
  by (induction xs ys rule: lev.induct) auto

lemma distance_le_longer:
  "length shorter \<le> length longer \<Longrightarrow> calculateEditDistance longer shorter \<le> length longer"
  using lev_le_max [of "rev shorter" "rev longer"] by (simp add: calculateEditDistance_lev)

lemma quotient_unit:
  assumes "d \<le> n" and "0 < n"
  shows "0 \<le> (of_int (int n - int d) / of_int (int n) :: rat)
       \<and> (of_int (int n - int d) / of_int (int n) :: rat) \<le> 1"
  using assms by simp

lemma similarity_sym: "calculateSimilarity a b = calculateSimilarity b a"
proof -
  consider "length a > length b" | "length b > length a" | "length a = length b"
    by linarith
  then show ?thesis
  proof cases
    case 1
    then show ?thesis by (simp add: calculateSimilarity_def)
  next
    case 2
    then show ?thesis by (simp add: calculateSimilarity_def)
  next
    case 3
    then have "(a = []) = (b = [])" by auto
    with 3 show ?thesis
      by (simp add: calculateSimilarity_def calculateEditDistance_lev lev_sym [of "rev a" "rev b"])
  qed
qed

lemma similarity_unit: "0 \<le> calculateSimilarity a b \<and> calculateSimilarity a b \<le> 1"
proof (cases "length a > length b")
  case True
  then have "calculateEditDistance a b \<le> length a" "0 < length a"
    by (simp_all add: distance_le_longer, auto)
  then show ?thesis
    using True quotient_unit [of "calculateEditDistance a b" "length a"]
    by (simp add: calculateSimilarity_def Let_def)
next
  case False
  show ?thesis
  proof (cases "length b = 0")
    case True
    with False show ?thesis by (simp add: calculateSimilarity_def)
  next
    case nz: False
    from False have "calculateEditDistance b a \<le> length b"
      by (simp add: distance_le_longer)
    then show ?thesis
      using False nz quotient_unit [of "calculateEditDistance b a" "length b"]
      by (simp add: calculateSimilarity_def Let_def)
  qed
qed

subsection \<open>Navigation: the re-entrancy check, the fallback and the cleanup\<close>

lemma navigate_navigating: "isNavigating r \<Longrightarrow> navigate p opts r = (False, r)"
  by (simp add: navigate.simps)

lemma findSimilarRoute_flag:
  "findSimilarRoute (r\<lparr>isNavigating := b\<rparr>) p = findSimilarRoute r p"
  by (simp add: findSimilarRoute_def split: pathArg.splits)

text \<open>Inside a navigation, the call that \<^verbatim>\<open>handleNotFound\<close> makes is rejected.\<close>

lemma handleNotFound_navigating:
  "isNavigating r \<Longrightarrow>
   handleNotFound p r =
     (case findSimilarRoute r p of Inl e \<Rightarrow> (Raised e, r) | Inr m \<Rightarrow> (Returned False, r))"
  by (simp add: handleNotFound.simps navigate_navigating split: sum.splits option.splits)

lemma navigate_idle:
  "\<not> isNavigating r \<Longrightarrow>
   navigate p opts r =
     catchFinally
       (case mapGet (routes r) (normalizePath (config r) p) of
          None \<Rightarrow>
            (case findSimilarRoute r p of
               Inl e \<Rightarrow> (Raised e, r\<lparr>isNavigating := True\<rparr>)
             | Inr m \<Rightarrow> (Returned False, r\<lparr>isNavigating := True\<rparr>))
        | Some rt \<Rightarrow>
            runSteps (navigationSteps (normalizePath (config r) p) rt opts)
              (r\<lparr>isNavigating := True\<rparr>))"
  by (simp add: navigate.simps handleNotFound_navigating findSimilarRoute_flag Let_def
      split: option.splits)

lemma catchFinally_idle: "\<not> isNavigating (snd (catchFinally x))"
  by (cases x) (simp add: catchFinally_def split: outcome.splits)

lemma navigate_ends_idle: "\<not> isNavigating r \<Longrightarrow> \<not> isNavigating (snd (navigate p opts r))"
  by (simp only: navigate_idle catchFinally_idle not_False_eq_True)

lemma navigate_not_found:
  assumes "\<not> isNavigating r"
    and "mapGet (routes r) (normalizePath (config r) (JStr s)) = None"
  shows "navigate (JStr s) opts r = (False, r)"
  using assms by (simp add: navigate_idle findSimilarRoute_def catchFinally_def)

lemma navigate_same_route:
  assumes "\<not> isNavigating r"
    and "mapGet (routes r) (normalizePath (config r) p) = Some rt"
    and "currentRoute r = Some (normalizePath (config r) p)"
    and "\<not> force opts"
  shows "navigate p opts r = (True, r)"
  using assms by (simp add: navigate_idle navigationSteps_def sameRouteCheck_def catchFinally_def)

lemma navigate_vetoed:
  assumes "\<not> isNavigating r"
    and "mapGet (routes r) (normalizePath (config r) p) = Some rt"
    and "\<not> (currentRoute r = Some (normalizePath (config r) p) \<and> \<not> force opts)"
    and "vetoed (normalizePath (config r) p) rt r"
  shows "navigate p opts r = (False, r\<lparr>previousRoute := currentRoute r\<rparr>)"
proof -
  let ?np = "normalizePath (config r) p"
  let ?r2 = "r\<lparr>isNavigating := True, previousRoute := currentRoute r\<rparr>"
  have b: "runBeforeListeners ?np ?r2 = runBeforeListeners ?np r"
    by (simp add: runBeforeListeners_def)
  have g: "runGuard g rt ?r2 = runGuard g rt r" for g
    by (simp add: runGuard_def)
  have fin: "?r2\<lparr>isNavigating := False\<rparr> = r\<lparr>previousRoute := currentRoute r\<rparr>"
    using assms(1) by simp
  show ?thesis
    using assms b g fin
    by (auto simp add: vetoed_def navigate_idle navigationSteps_def sameRouteCheck_def
        storePreviousRoute_def beforeListenersStep_def beforeEnterStep_def catchFinally_def
        split: option.splits)
qed

text \<open>A navigation that nothing stops: every statement after the guards falls through.\<close>

lemma runSteps_skip:
  assumes "\<And>a s. a \<in> set as \<Longrightarrow> I s \<Longrightarrow> fst (a s) = Continue \<and> I (snd (a s))" and "I r"
  shows "\<exists>r'. I r' \<and> runSteps (as @ bs) r = runSteps bs r'"
  using assms
proof (induction as arbitrary: r)
  case Nil
  then show ?case by auto
next
  case (Cons a as)
  obtain r1 where a: "a r = (Continue, r1)" and i: "I r1"
    using Cons.prems(1) [of a r] Cons.prems(2) by (cases "a r") auto
  obtain r' where "I r'" and "runSteps (as @ bs) r1 = runSteps bs r'"
    using Cons.IH [of r1] Cons.prems(1) i by auto
  with a show ?case by auto
qed

lemma frame_dom:
  "tracked cur prev calls s \<Longrightarrow>
   fst (domCall st s) = Continue \<and> tracked cur prev calls (snd (domCall st s))"
  by (simp add: tracked_def domCall_def)

lemma frame_updateURLStep:
  "tracked cur prev calls s \<Longrightarrow>
   fst (updateURLStep np opts s) = Continue \<and> tracked cur prev calls (snd (updateURLStep np opts s))"
  by (simp add: tracked_def updateURLStep_def updateURL_def Let_def)

lemma frame_addToHistoryStep:
  "tracked cur prev calls s \<Longrightarrow>
   fst (addToHistoryStep np rt s) = Continue
   \<and> tracked cur prev calls (snd (addToHistoryStep np rt s))"
  by (simp add: tracked_def addToHistoryStep_def addToHistory_def Let_def)

lemma frame_transitionStep:
  "tracked cur prev calls s \<Longrightarrow>
   fst (transitionStep rt opts s) = Continue
   \<and> tracked cur prev calls (snd (transitionStep rt opts s))"
  using frame_dom [of cur prev calls s Transition]
  by (simp add: transitionStep_def handleTransition_def)

lemma frame_updatePageMeta:
  "tracked cur prev calls s \<Longrightarrow>
   fst (updatePageMeta rt s) = Continue \<and> tracked cur prev calls (snd (updatePageMeta rt s))"
  by (simp add: tracked_def updatePageMeta_def domCall_def)

lemma frame_updateNavigationState:
  "tracked cur prev calls s \<Longrightarrow>
   fst (updateNavigationState np s) = Continue
   \<and> tracked cur prev calls (snd (updateNavigationState np s))"
  using frame_dom [of cur prev calls s NavigationState] by (simp add: updateNavigationState_def)

lemma frame_scrollStep:
  "tracked cur prev calls s \<Longrightarrow>
   fst (scrollStep np opts s) = Continue \<and> tracked cur prev calls (snd (scrollStep np opts s))"
  using frame_dom [of cur prev calls s Scroll] by (simp add: scrollStep_def)

lemma frame_after:
  "tracked cur prev calls s \<Longrightarrow>
   fst (runAfterListeners np s) = Continue \<and> tracked cur prev calls (snd (runAfterListeners np s))
   \<and> fst (afterEnterStep rt s) = Continue \<and> tracked cur prev calls (snd (afterEnterStep rt s))"
  by (simp add: runAfterListeners_def afterEnterStep_def)

lemma frame_trackNavigation:
  "tracked cur prev calls s \<Longrightarrow>
   fst (trackNavigation np s) = Continue \<and> tracked cur prev calls (snd (trackNavigation np s))"
  by (simp add: tracked_def trackNavigation_def)

lemma frame_analyticsStep:
  "tracked cur prev calls s \<Longrightarrow>
   fst (analyticsStep np rt s) = Continue \<and> tracked cur prev calls (snd (analyticsStep np rt s))"
  by (simp add: tracked_def analyticsStep_def trackPageView_def dispatchEvent_def)

lemma frame_dispatchNavigated:
  "tracked cur prev calls s \<Longrightarrow>
   fst (dispatchNavigated np s) = Continue \<and> tracked cur prev calls (snd (dispatchNavigated np s))"
  by (simp add: tracked_def dispatchNavigated_def dispatchEvent_def)

lemma frame_steps:
  assumes "a \<in> set [updatePageMeta rt, updateNavigationState np, scrollStep np opts,
                      runAfterListeners np, afterEnterStep rt, trackNavigation np,
                      analyticsStep np rt, dispatchNavigated np]
           \<or> a \<in> set [updateURLStep np opts] \<or> a \<in> set [addToHistoryStep np rt, transitionStep rt opts]"
    and "tracked cur prev calls s"
  shows "fst (a s) = Continue \<and> tracked cur prev calls (snd (a s))"
proof -
  from assms(1) consider "a = updatePageMeta rt" | "a = updateNavigationState np"
    | "a = scrollStep np opts" | "a = runAfterListeners np" | "a = afterEnterStep rt"
    | "a = trackNavigation np" | "a = analyticsStep np rt" | "a = dispatchNavigated np"
    | "a = updateURLStep np opts" | "a = addToHistoryStep np rt" | "a = transitionStep rt opts"
    by auto
  then show ?thesis
    using assms(2)
    by cases
      (simp_all only: frame_updatePageMeta frame_updateNavigationState frame_scrollStep
        frame_after frame_trackNavigation frame_analyticsStep frame_dispatchNavigated
        frame_updateURLStep frame_addToHistoryStep frame_transitionStep simp_thms)
qed

lemma executeRoute_tracked:
  assumes "tracked cur prev calls s"
  shows "\<exists>s'. executeRoute rt s = (Continue, s') \<and> tracked cur prev (calls @ [path rt]) s'"
  using assms
  by (auto simp: tracked_def executeRoute_def handleError_def dispatchEvent_def Let_def
      split: cb_result.splits)

lemma setCurrentRoute_tracked:
  assumes "tracked cur prev calls s"
  shows "\<exists>s'. setCurrentRoute np s = (Continue, s') \<and> tracked (Some np) prev calls s'"
  using assms by (simp add: tracked_def setCurrentRoute_def)

lemma navigate_succeeds:
  assumes "\<not> isNavigating r"
    and "mapGet (routes r) (normalizePath (config r) p) = Some rt"
    and "\<not> (currentRoute r = Some (normalizePath (config r) p) \<and> \<not> force opts)"
    and "\<not> vetoed (normalizePath (config r) p) rt r"
    and "\<forall>s. \<not> domThrows (window r) s"
  shows "fst (navigate p opts r) = True
       \<and> currentRoute (snd (navigate p opts r)) = Some (normalizePath (config r) p)
       \<and> previousRoute (snd (navigate p opts r)) = currentRoute r
       \<and> handlerCalls (window (snd (navigate p opts r))) = handlerCalls (window r) @ [path rt]
       \<and> \<not> isNavigating (snd (navigate p opts r))"
proof -
  let ?np = "normalizePath (config r) p"
  let ?r2 = "r\<lparr>isNavigating := True, previousRoute := currentRoute r\<rparr>"
  let ?tail = "[updatePageMeta rt, updateNavigationState ?np, scrollStep ?np opts,
                runAfterListeners ?np, afterEnterStep rt, trackNavigation ?np,
                analyticsStep ?np rt, dispatchNavigated ?np]"
  have b: "runBeforeListeners ?np ?r2 = runBeforeListeners ?np r"
    by (simp add: runBeforeListeners_def)
  have g: "runGuard g rt ?r2 = runGuard g rt r" for g
    by (simp add: runGuard_def)
  have head: "runSteps (navigationSteps ?np rt opts) (r\<lparr>isNavigating := True\<rparr>)
      = runSteps ([updateURLStep ?np opts] @ setCurrentRoute ?np
          # [addToHistoryStep ?np rt, transitionStep rt opts] @ executeRoute rt # ?tail @ []) ?r2"
    using assms(3,4) b g
    by (auto simp add: vetoed_def navigationSteps_def sameRouteCheck_def storePreviousRoute_def
        beforeListenersStep_def beforeEnterStep_def split: option.splits)
  have t2: "tracked (currentRoute r) (currentRoute r) (handlerCalls (window r)) ?r2"
    using assms(5) by (simp add: tracked_def)
  obtain r3 where t3: "tracked (currentRoute r) (currentRoute r) (handlerCalls (window r)) r3"
    and e3: "runSteps ([updateURLStep ?np opts] @ setCurrentRoute ?np
          # [addToHistoryStep ?np rt, transitionStep rt opts] @ executeRoute rt # ?tail @ []) ?r2
        = runSteps (setCurrentRoute ?np
          # [addToHistoryStep ?np rt, transitionStep rt opts] @ executeRoute rt # ?tail @ []) r3"
    using runSteps_skip [where I = "tracked (currentRoute r) (currentRoute r) (handlerCalls (window r))"
        and as = "[updateURLStep ?np opts]" and r = ?r2, OF _ t2] frame_steps
    by blast
  obtain r4 where s4: "setCurrentRoute ?np r3 = (Continue, r4)"
    and t4: "tracked (Some ?np) (currentRoute r) (handlerCalls (window r)) r4"
    using setCurrentRoute_tracked [OF t3] by blast
  obtain r5 where t5: "tracked (Some ?np) (currentRoute r) (handlerCalls (window r)) r5"
    and e5: "runSteps ([addToHistoryStep ?np rt, transitionStep rt opts] @ executeRoute rt # ?tail @ []) r4
        = runSteps (executeRoute rt # ?tail @ []) r5"
    using runSteps_skip [where I = "tracked (Some ?np) (currentRoute r) (handlerCalls (window r))"
        and as = "[addToHistoryStep ?np rt, transitionStep rt opts]" and r = r4, OF _ t4] frame_steps
    by blast
  obtain r6 where s6: "executeRoute rt r5 = (Continue, r6)"
    and t6: "tracked (Some ?np) (currentRoute r) (handlerCalls (window r) @ [path rt]) r6"
    using executeRoute_tracked [OF t5] by blast
  obtain r7 where t7: "tracked (Some ?np) (currentRoute r) (handlerCalls (window r) @ [path rt]) r7"
    and e7: "runSteps (?tail @ []) r6 = runSteps [] r7"
    using runSteps_skip [where I = "tracked (Some ?np) (currentRoute r) (handlerCalls (window r) @ [path rt])"
        and as = ?tail and r = r6, OF _ t6] frame_steps
    by blast
  have "runSteps (navigationSteps ?np rt opts) (r\<lparr>isNavigating := True\<rparr>) = (Returned True, r7)"
    using head e3 e5 e7 s4 s6 by simp
  then have "navigate p opts r = (True, r7\<lparr>isNavigating := False\<rparr>)"
    using assms(1,2) by (simp add: navigate_idle catchFinally_def)
  then show ?thesis
    using t7 by (simp add: tracked_def)
qed

subsection \<open>The route table\<close>






subsection \<open>The history list stays bounded\<close>

lemma addToHistory_bounded: "historyBounded r \<Longrightarrow> historyBounded (addToHistory p rt r)"
  by (simp add: historyBounded_def addToHistory_def Let_def)

lemma runSteps_preserves:
  assumes "\<And>a s. a \<in> set as \<Longrightarrow> P s \<Longrightarrow> P (snd (a s))" and "P r"
  shows "P (snd (runSteps as r))"
  using assms
proof (induction as arbitrary: r)
  case Nil
  then show ?case by simp
next
  case (Cons a as)
  have step: "P (snd (a r))"
    using Cons.prems by simp
  show ?case
  proof (cases "a r")
    case (Pair f r')
    with step have "P r'" by simp
    then have "P (snd (runSteps as r'))"
      using Cons.IH Cons.prems(1) by simp
    with Pair \<open>P r'\<close> show ?thesis
      by (cases f) simp_all
  qed
qed

text \<open>Of the statements of the \<^verbatim>\<open>try\<close> block, \<^verbatim>\<open>addToHistory\<close> alone writes the history.\<close>

lemma steps_bounded:
  assumes "a \<in> set (navigationSteps np rt opts)" and "historyBounded s"
  shows "historyBounded (snd (a s))"
proof -
  have h: "history (snd (a s)) = history s" if "a \<noteq> addToHistoryStep np rt"
    using assms(1) that
    by (auto simp: navigationSteps_def sameRouteCheck_def storePreviousRoute_def
        beforeListenersStep_def beforeEnterStep_def updateURLStep_def updateURL_def
        setCurrentRoute_def transitionStep_def handleTransition_def domCall_def
        executeRoute_def handleError_def dispatchEvent_def updatePageMeta_def
        updateNavigationState_def scrollStep_def runAfterListeners_def afterEnterStep_def
        trackNavigation_def analyticsStep_def trackPageView_def dispatchNavigated_def Let_def
        split: option.splits cb_result.splits)
  show ?thesis
  proof (cases "a = addToHistoryStep np rt")
    case True
    then show ?thesis
      using assms(2) by (simp add: addToHistoryStep_def addToHistory_bounded)
  next
    case False
    then show ?thesis
      using h assms(2) by (simp add: historyBounded_def)
  qed
qed

lemma catchFinally_bounded:
  "historyBounded (snd x) \<Longrightarrow> historyBounded (snd (catchFinally x))"
  by (cases x)
    (simp add: catchFinally_def historyBounded_def handleError_def dispatchEvent_def
      split: outcome.splits)

lemma navigate_bounded:
  assumes "historyBounded r"
  shows "historyBounded (snd (navigate p opts r))"
proof (cases "isNavigating r")
  case True
  then show ?thesis using assms by (simp add: navigate_navigating)
next
  case False
  have r1: "historyBounded (r\<lparr>isNavigating := True\<rparr>)"
    using assms by (simp add: historyBounded_def)
  have "historyBounded (snd (case mapGet (routes r) (normalizePath (config r) p) of
          None \<Rightarrow>
            (case findSimilarRoute r p of
               Inl e \<Rightarrow> (Raised e, r\<lparr>isNavigating := True\<rparr>)
             | Inr m \<Rightarrow> (Returned False, r\<lparr>isNavigating := True\<rparr>))
        | Some rt \<Rightarrow>
            runSteps (navigationSteps (normalizePath (config r) p) rt opts)
              (r\<lparr>isNavigating := True\<rparr>)))"
    using r1 by (auto split: option.splits sum.splits intro: runSteps_preserves steps_bounded)
  then show ?thesis
    using False by (simp add: navigate_idle catchFinally_bounded)
qed

lemma backFallback_bounded: "historyBounded s \<Longrightarrow> historyBounded (snd (backFallback s))"
  by (simp add: backFallback_def navigate_bounded)

lemma goBack_bounded:
  assumes "historyBounded r"
  shows "historyBounded (snd (goBack r))"
proof (cases "length (history r) > 1")
  case True
  let ?r1 = "r\<lparr>history := butlast (history r)\<rparr>"
  have b1: "historyBounded ?r1"
    using assms by (simp add: historyBounded_def)
  have "goBack r = (if history ?r1 \<noteq> []
                    then navigate (JStr (entryPath (last (history ?r1)))) noOptions ?r1
                    else backFallback ?r1)"
    using True by (simp only: goBack_def Let_def if_True)
  then show ?thesis
    using navigate_bounded [OF b1] backFallback_bounded [OF b1] by metis
next
  case False
  then have "goBack r = backFallback r"
    by (simp only: goBack_def if_False)
  then show ?thesis
    using backFallback_bounded [OF assms] by simp
qed

lemma perform_bounded: "historyBounded r \<Longrightarrow> historyBounded (perform op r)"
proof (cases op)
  case (AddRoute p h opts)
  assume "historyBounded r"
  then show ?thesis
    using AddRoute
    by (auto simp: addRoute_def historyBounded_def split: pathArg.splits option.splits)
next
  case (HashChange f)
  assume b: "historyBounded r"
  then have "historyBounded (r\<lparr>window := (window r)\<lparr>fragment := f\<rparr>\<rparr>)"
    by (simp add: historyBounded_def)
  then show ?thesis
    using HashChange by (simp add: handleHashChange_def Let_def navigate_bounded)
next
  case (PopState f)
  assume b: "historyBounded r"
  then have "historyBounded (r\<lparr>window := (window r)\<lparr>fragment := f\<rparr>\<rparr>)"
    by (simp add: historyBounded_def)
  then show ?thesis
    using PopState by (simp add: handlePopState_def Let_def navigate_bounded)
qed (simp_all add: navigate_bounded goBack_bounded replaceRoute_def,
     simp_all add: historyBounded_def removeRoute_def goForward_def clearHistory_def cleanup_def)

lemma run_bounded: "historyBounded r \<Longrightarrow> historyBounded (run ops r)"
  unfolding run_def by (induction ops arbitrary: r) (simp_all add: perform_bounded)

lemma addToHistory_evicts:
  assumes "length (history r) = maxHistoryLength" and "entryPath (last (history r)) \<noteq> p"
  shows "history (addToHistory p rt r) =
           tl (history r) @ [\<lparr>entryPath = p, entryRoute = title rt, timestamp = now (window r)\<rparr>]"
proof -
  have "history r \<noteq> []"
    using assms(1) by (auto simp: maxHistoryLength_def)
  then show ?thesis
    using assms by (simp add: addToHistory_def Let_def)
qed

lemma addToHistory_skips:
  "history r \<noteq> [] \<Longrightarrow> entryPath (last (history r)) = p \<Longrightarrow> addToHistory p rt r = r"
  by (simp add: addToHistory_def)

subsection \<open>The sample states, evaluated\<close>

lemmas eval_defs =
  run_def addRoute_def removeRoute_def constructor_def defaultConfig_def plainBrowser_def
  noRouteOptions_def plainRoute_def toLowerCase_def toLowerChar_def toUpperChar_def charToUpperCase_def
  formatTitle_def trim_def isWhiteSpace_def normalizePath_def mapGet_def mapHas_def
  mapDelete_def hasRoute_def findSimilarRoute_def calculateSimilarity_def
  calculateEditDistance_def upt_rec noOptions_def

lemmas step_defs =
  navigationSteps_def sameRouteCheck_def storePreviousRoute_def beforeListenersStep_def
  beforeEnterStep_def updateURLStep_def updateURL_def setCurrentRoute_def transitionStep_def
  handleTransition_def domCall_def executeRoute_def handleError_def dispatchEvent_def
  updatePageMeta_def updateNavigationState_def scrollStep_def runAfterListeners_def
  afterEnterStep_def trackNavigation_def analyticsStep_def trackPageView_def
  dispatchNavigated_def addToHistoryStep_def addToHistory_def runBeforeListeners_def
  runGuard_def href_def catchFinally_def maxHistoryLength_def okHandler_def denyAll_def Let_def

lemma threeRoutes_value:
  "threeRoutes =
     \<lparr>routes = [(''home'', plainRoute ''home'' ''Home''), (''about'', plainRoute ''about'' ''About''),
                (''contact'', plainRoute ''contact'' ''Contact'')],
      currentRoute = None, previousRoute = None, isNavigating = False, config = defaultConfig,
      beforeRoute = [], afterRoute = [], routeError = [], history = [],
      navigationMetrics = [], window = plainBrowser\<rparr>"
  by (simp add: threeRoutes_def run_def addRoute_def constructor_def noRouteOptions_def
      plainRoute_def toLowerCase_def toLowerChar_def toUpperChar_def charToUpperCase_def formatTitle_def)

lemma threeRoutes_idle: "\<not> isNavigating threeRoutes"
  by (simp add: threeRoutes_value)

lemma onHome_value:
  "onHome =
     threeRoutes\<lparr>currentRoute := Some ''home'',
       history := [\<lparr>entryPath = ''home'', entryRoute = ''Home'', timestamp = 0\<rparr>],
       navigationMetrics := [(''home'', 1)],
       window := plainBrowser\<lparr>fragment := Some ''home'', historyLength := 2,
         documentTitle := ''Home'', dispatched := [RouterNavigated None ''home''],
         handlerCalls := [''home'']\<rparr>\<rparr>"
  by (simp add: onHome_def run_def navigate_idle threeRoutes_idle,
      simp add: threeRoutes_value eval_defs step_defs)

lemma onContact_value:
  "onContact =
     threeRoutes\<lparr>currentRoute := Some ''contact'',
       history := [\<lparr>entryPath = ''contact'', entryRoute = ''Contact'', timestamp = 0\<rparr>],
       navigationMetrics := [(''contact'', 1)],
       window := plainBrowser\<lparr>fragment := Some ''contact'', historyLength := 2,
         documentTitle := ''Contact'', dispatched := [RouterNavigated None ''contact''],
         handlerCalls := [''contact'']\<rparr>\<rparr>"
  by (simp add: onContact_def run_def navigate_idle threeRoutes_idle,
      simp add: threeRoutes_value eval_defs step_defs)

lemma vetoRouter_value: "vetoRouter = onHome\<lparr>beforeRoute := [denyAll]\<rparr>"
  by (simp add: vetoRouter_def run_def, simp add: onHome_value threeRoutes_value)

lemma guardedRouter_value:
  "guardedRouter =
     onHome\<lparr>routes := [(''home'', plainRoute ''home'' ''Home''), (''about'', plainRoute ''about'' ''About''),
                       (''contact'', plainRoute ''contact'' ''Contact''),
                       (''admin'', (plainRoute ''admin'' ''Admin'')\<lparr>beforeEnter := Some denyAll\<rparr>)]\<rparr>"
  by (simp add: guardedRouter_def run_def addRoute_def noRouteOptions_def plainRoute_def
      toLowerCase_def toLowerChar_def toUpperChar_def charToUpperCase_def formatTitle_def,
      simp add: onHome_value threeRoutes_value plainRoute_def)

section \<open>The claims\<close>

text \<open>
  Claim C1. For every \<^verbatim>\<open>navigate(path)\<close> call where the normalized path is not a registered
  route, the call re-navigates to the most similar registered route when its score exceeds
  0.6, and to the default route otherwise, and the fallback navigation succeeds.

  On the router with \<^verbatim>\<open>home\<close>, \<^verbatim>\<open>about\<close> and \<^verbatim>\<open>contact\<close>, \<^verbatim>\<open>navigate("abou")\<close> finds the similar
  route \<^verbatim>\<open>about\<close> and \<^verbatim>\<open>navigate("zzz")\<close> finds none; in both cases the call made by
  \<^verbatim>\<open>handleNotFound\<close> meets \<^verbatim>\<open>isNavigating = true\<close> and is rejected, so that \<^verbatim>\<open>navigate\<close> returns
  \<^verbatim>\<open>false\<close> and the router is where it was, on no route. A direct \<^verbatim>\<open>navigate("about")\<close>
  succeeds on the same router.
\<close>

theorem not_found_fallback_rejected:
  "findSimilarRoute threeRoutes (JStr ''abou'') = Inr (Some ''about'')
   \<and> navigate (JStr ''about'') noOptions (threeRoutes\<lparr>isNavigating := True\<rparr>)
       = (False, threeRoutes\<lparr>isNavigating := True\<rparr>)
   \<and> navigate (JStr ''abou'') noOptions threeRoutes = (False, threeRoutes)
   \<and> findSimilarRoute threeRoutes (JStr ''zzz'') = Inr None
   \<and> navigate (JStr ''zzz'') noOptions threeRoutes = (False, threeRoutes)
   \<and> currentRoute threeRoutes = None
   \<and> fst (navigate (JStr ''about'') noOptions threeRoutes) = True
   \<and> currentRoute (snd (navigate (JStr ''about'') noOptions threeRoutes)) = Some ''about''"
proof -
  have s1: "findSimilarRoute threeRoutes (JStr ''abou'') = Inr (Some ''about'')"
    by (simp add: threeRoutes_value findSimilarRoute_def calculateSimilarity_def
        calculateEditDistance_def upt_rec)
  have s2: "findSimilarRoute threeRoutes (JStr ''zzz'') = Inr None"
    by (simp add: threeRoutes_value findSimilarRoute_def calculateSimilarity_def
        calculateEditDistance_def upt_rec)
  have n0: "navigate (JStr ''about'') noOptions (threeRoutes\<lparr>isNavigating := True\<rparr>)
              = (False, threeRoutes\<lparr>isNavigating := True\<rparr>)"
    by (rule navigate_navigating) simp
  have n1: "navigate (JStr ''abou'') noOptions threeRoutes = (False, threeRoutes)"
    by (rule navigate_not_found) (simp_all add: threeRoutes_value eval_defs)
  have n2: "navigate (JStr ''zzz'') noOptions threeRoutes = (False, threeRoutes)"
    by (rule navigate_not_found) (simp_all add: threeRoutes_value eval_defs)
  have c: "currentRoute threeRoutes = None"
    by (simp add: threeRoutes_value)
  have d: "fst (navigate (JStr ''about'') noOptions threeRoutes) = True
     \<and> currentRoute (snd (navigate (JStr ''about'') noOptions threeRoutes)) = Some ''about''"
    by (simp add: navigate_idle threeRoutes_idle, simp add: threeRoutes_value eval_defs step_defs)
  from s1 s2 n0 n1 n2 c d show ?thesis by simp
qed

text \<open>
  Claim C2. For every \<^verbatim>\<open>navigate(path, options)\<close> call, whether it succeeds, is rejected by a
  guard or an exception is raised in one of its steps, \<^verbatim>\<open>isNavigating\<close> is false when the call
  completes.

  As amended: this holds for every call that starts while the router is idle, whatever the
  path, the options, the callbacks and the browser calls that throw. (A call that starts
  while another navigation is in flight returns at the re-entrancy check and leaves the flag
  set.)
\<close>

theorem navigate_restores_idle:
  "\<not> isNavigating r \<Longrightarrow> \<not> isNavigating (snd (navigate p opts r))"
  by (rule navigate_ends_idle)

text \<open>An instance: \<^verbatim>\<open>pushState\<close> throws, \<^verbatim>\<open>navigate\<close> reports the error and returns \<^verbatim>\<open>false\<close>.\<close>

theorem navigate_restores_idle_witness:
  "\<not> isNavigating throwingRouter
   \<and> fst (navigate (JStr ''about'') noOptions throwingRouter) = False
   \<and> dispatched (window (snd (navigate (JStr ''about'') noOptions throwingRouter)))
       = [RouterError Navigation]
   \<and> \<not> isNavigating (snd (navigate (JStr ''about'') noOptions throwingRouter))"
proof -
  have idle: "\<not> isNavigating throwingRouter"
    by (simp add: throwingRouter_def threeRoutes_value)
  have ev: "fst (navigate (JStr ''about'') noOptions throwingRouter) = False
     \<and> dispatched (window (snd (navigate (JStr ''about'') noOptions throwingRouter)))
         = [RouterError Navigation]"
    by (simp add: navigate_idle idle,
        simp add: throwingRouter_def threeRoutes_value eval_defs step_defs)
  from idle ev navigate_restores_idle [OF idle, of "JStr ''about''" noOptions]
  show ?thesis by simp
qed

text \<open>The claim as stated fails for a call that arrives during a navigation.\<close>

theorem navigate_restores_idle_counterexample:
  "isNavigating (snd (navigate (JStr ''about'') noOptions busyRouter))"
  by (simp add: busyRouter_def navigate_navigating)

text \<open>
  Claim C3. For every state in which \<^verbatim>\<open>isNavigating\<close> is true, \<^verbatim>\<open>navigate(path)\<close> returns
  \<^verbatim>\<open>false\<close> and leaves all controller state exactly as it was.
\<close>

theorem navigate_rejects_reentrant:
  "isNavigating r \<Longrightarrow> navigate p opts r = (False, r)"
  by (rule navigate_navigating)

theorem navigate_rejects_reentrant_witness:
  "isNavigating busyRouter
   \<and> navigate (JStr ''about'') noOptions busyRouter = (False, busyRouter)"
proof -
  have busy: "isNavigating busyRouter"
    by (simp add: busyRouter_def)
  from busy navigate_rejects_reentrant [OF busy, of "JStr ''about''" noOptions]
  show ?thesis by simp
qed

text \<open>
  Claim C4. For every navigation in which a global before-listener or the \<^verbatim>\<open>beforeEnter\<close>
  guard of the target route returns \<^verbatim>\<open>false\<close>, the navigation aborts with no state change and
  no URL update: the current path stays, the handler is not invoked, nothing is appended to
  the history.

  As amended: such a navigation, started on an idle router, returns \<^verbatim>\<open>false\<close> and changes
  one field of the state, \<^verbatim>\<open>previousRoute\<close>, which line 149 has set to the current route before
  the listeners run. The current route, the history, the route table and the browser (the
  address, the handler calls, the events) are as they were.
\<close>

theorem navigate_veto_effect:
  assumes "\<not> isNavigating r"
    and "mapGet (routes r) (normalizePath (config r) p) = Some rt"
    and "\<not> (currentRoute r = Some (normalizePath (config r) p) \<and> \<not> force opts)"
    and "vetoed (normalizePath (config r) p) rt r"
  shows "navigate p opts r = (False, r\<lparr>previousRoute := currentRoute r\<rparr>)"
  using assms by (rule navigate_vetoed)

text \<open>Two instances: a veto of a global listener, and a veto of a \<^verbatim>\<open>beforeEnter\<close> guard.\<close>

theorem navigate_veto_effect_witness:
  "\<not> isNavigating vetoRouter
   \<and> mapGet (routes vetoRouter) (normalizePath (config vetoRouter) (JStr ''about''))
       = Some (plainRoute ''about'' ''About'')
   \<and> \<not> (currentRoute vetoRouter = Some (normalizePath (config vetoRouter) (JStr ''about''))
         \<and> \<not> force noOptions)
   \<and> vetoed (normalizePath (config vetoRouter) (JStr ''about'')) (plainRoute ''about'' ''About'')
       vetoRouter
   \<and> navigate (JStr ''about'') noOptions vetoRouter
       = (False, vetoRouter\<lparr>previousRoute := Some ''home''\<rparr>)
   \<and> \<not> isNavigating guardedRouter
   \<and> mapGet (routes guardedRouter) (normalizePath (config guardedRouter) (JStr ''admin''))
       = Some ((plainRoute ''admin'' ''Admin'')\<lparr>beforeEnter := Some denyAll\<rparr>)
   \<and> runBeforeListeners (normalizePath (config guardedRouter) (JStr ''admin'')) guardedRouter
   \<and> vetoed (normalizePath (config guardedRouter) (JStr ''admin''))
       ((plainRoute ''admin'' ''Admin'')\<lparr>beforeEnter := Some denyAll\<rparr>) guardedRouter
   \<and> navigate (JStr ''admin'') noOptions guardedRouter
       = (False, guardedRouter\<lparr>previousRoute := Some ''home''\<rparr>)"
proof -
  let ?np = "normalizePath (config vetoRouter) (JStr ''about'')"
  let ?ng = "normalizePath (config guardedRouter) (JStr ''admin'')"
  let ?admin = "(plainRoute ''admin'' ''Admin'')\<lparr>beforeEnter := Some denyAll\<rparr>"
  have v1: "\<not> isNavigating vetoRouter"
    by (simp add: vetoRouter_value onHome_value threeRoutes_value)
  have v2: "mapGet (routes vetoRouter) ?np = Some (plainRoute ''about'' ''About'')"
    by (simp add: vetoRouter_value onHome_value threeRoutes_value eval_defs)
  have v3: "\<not> (currentRoute vetoRouter = Some ?np \<and> \<not> force noOptions)"
    by (simp add: vetoRouter_value onHome_value threeRoutes_value eval_defs)
  have v4: "vetoed ?np (plainRoute ''about'' ''About'') vetoRouter"
    by (simp add: vetoed_def runBeforeListeners_def denyAll_def vetoRouter_value)
  have v5: "currentRoute vetoRouter = Some ''home''"
    by (simp add: vetoRouter_value onHome_value)
  have g1: "\<not> isNavigating guardedRouter"
    by (simp add: guardedRouter_value onHome_value threeRoutes_value)
  have g2: "mapGet (routes guardedRouter) ?ng = Some ?admin"
    by (simp add: guardedRouter_value onHome_value threeRoutes_value eval_defs)
  have g3: "\<not> (currentRoute guardedRouter = Some ?ng \<and> \<not> force noOptions)"
    by (simp add: guardedRouter_value onHome_value threeRoutes_value eval_defs)
  have g4: "runBeforeListeners ?ng guardedRouter"
    by (simp add: runBeforeListeners_def guardedRouter_value onHome_value threeRoutes_value)
  have g5: "vetoed ?ng ?admin guardedRouter"
    by (simp add: vetoed_def runGuard_def denyAll_def plainRoute_def)
  have g6: "currentRoute guardedRouter = Some ''home''"
    by (simp add: guardedRouter_value onHome_value)
  from navigate_veto_effect [OF v1 v2 v3 v4] navigate_veto_effect [OF g1 g2 g3 g5]
    v1 v2 v3 v4 v5 g1 g2 g4 g5 g6
  show ?thesis by simp
qed

text \<open>
  The claim as stated fails: after \<^verbatim>\<open>navigate("home")\<close> on a fresh router the previous route
  is \<^verbatim>\<open>null\<close>; a vetoed \<^verbatim>\<open>navigate("about")\<close> makes it \<^verbatim>\<open>home\<close>.
\<close>

theorem navigate_veto_effect_counterexample:
  "\<not> runBeforeListeners ''about'' vetoRouter
   \<and> fst (navigate (JStr ''about'') noOptions vetoRouter) = False
   \<and> previousRoute vetoRouter = None
   \<and> previousRoute (snd (navigate (JStr ''about'') noOptions vetoRouter)) = Some ''home''
   \<and> snd (navigate (JStr ''about'') noOptions vetoRouter) \<noteq> vetoRouter"
proof -
  have idle: "\<not> isNavigating vetoRouter"
    by (simp add: vetoRouter_value onHome_value threeRoutes_value)
  have b: "\<not> runBeforeListeners ''about'' vetoRouter"
    by (simp add: runBeforeListeners_def denyAll_def vetoRouter_value)
  have p0: "previousRoute vetoRouter = None"
    by (simp add: vetoRouter_value onHome_value threeRoutes_value)
  have n: "fst (navigate (JStr ''about'') noOptions vetoRouter) = False
     \<and> previousRoute (snd (navigate (JStr ''about'') noOptions vetoRouter)) = Some ''home''"
    by (simp add: navigate_idle idle,
        simp add: vetoRouter_value onHome_value threeRoutes_value eval_defs step_defs)
  from p0 n have "snd (navigate (JStr ''about'') noOptions vetoRouter) \<noteq> vetoRouter"
    by auto
  with b p0 n show ?thesis by simp
qed

text \<open>
  Claim C5. For every \<^verbatim>\<open>navigate(path)\<close> call where the normalized path equals the current
  route and no force flag is set, the call returns \<^verbatim>\<open>true\<close> and is a no-op: every piece of
  controller state is unchanged and no history entry is added.

  As amended: this holds when the call starts on an idle router and the current route is
  still in the route table.
\<close>

theorem navigate_same_route_noop:
  assumes "\<not> isNavigating r"
    and "mapGet (routes r) (normalizePath (config r) p) = Some rt"
    and "currentRoute r = Some (normalizePath (config r) p)"
    and "\<not> force opts"
  shows "navigate p opts r = (True, r)"
  using assms by (rule navigate_same_route)

theorem navigate_same_route_noop_witness:
  "\<not> isNavigating onContact
   \<and> mapGet (routes onContact) (normalizePath (config onContact) (JStr ''Contact ''))
       = Some (plainRoute ''contact'' ''Contact'')
   \<and> currentRoute onContact = Some (normalizePath (config onContact) (JStr ''Contact ''))
   \<and> \<not> force noOptions
   \<and> navigate (JStr ''Contact '') noOptions onContact = (True, onContact)"
proof -
  let ?np = "normalizePath (config onContact) (JStr ''Contact '')"
  have h1: "\<not> isNavigating onContact"
    by (simp add: onContact_value threeRoutes_value)
  have h2: "mapGet (routes onContact) ?np = Some (plainRoute ''contact'' ''Contact'')"
    by (simp add: onContact_value threeRoutes_value eval_defs)
  have h3: "currentRoute onContact = Some ?np"
    by (simp add: onContact_value threeRoutes_value eval_defs)
  have h4: "\<not> force noOptions"
    by (simp add: noOptions_def)
  from navigate_same_route_noop [OF h1 h2 h3 h4] h1 h2 h3 h4 show ?thesis by simp
qed

text \<open>
  The claim as stated fails in two states whose current route is \<^verbatim>\<open>contact\<close>: while another
  navigation is in flight, and after \<^verbatim>\<open>removeRoute("contact")\<close>. In both, \<^verbatim>\<open>navigate("contact")\<close>
  without a force flag returns \<^verbatim>\<open>false\<close>.
\<close>

theorem navigate_same_route_noop_counterexample:
  "currentRoute onContactBusy = Some (normalizePath (config onContactBusy) (JStr ''contact''))
   \<and> \<not> force noOptions
   \<and> fst (navigate (JStr ''contact'') noOptions onContactBusy) = False
   \<and> currentRoute contactRemoved = Some (normalizePath (config contactRemoved) (JStr ''contact''))
   \<and> \<not> isNavigating contactRemoved
   \<and> fst (navigate (JStr ''contact'') noOptions contactRemoved) = False"
proof -
  have a1: "currentRoute onContactBusy
              = Some (normalizePath (config onContactBusy) (JStr ''contact''))"
    by (simp add: onContactBusy_def onContact_value threeRoutes_value eval_defs)
  have a2: "fst (navigate (JStr ''contact'') noOptions onContactBusy) = False"
    by (simp add: onContactBusy_def navigate_navigating)
  have b1: "currentRoute contactRemoved
              = Some (normalizePath (config contactRemoved) (JStr ''contact''))"
    by (simp add: contactRemoved_def onContact_value threeRoutes_value eval_defs)
  have b2: "\<not> isNavigating contactRemoved"
    by (simp add: contactRemoved_def onContact_value threeRoutes_value eval_defs)
  have b3: "mapGet (routes contactRemoved) (normalizePath (config contactRemoved) (JStr ''contact''))
              = None"
    by (simp add: contactRemoved_def onContact_value threeRoutes_value eval_defs)
  have b4: "fst (navigate (JStr ''contact'') noOptions contactRemoved) = False"
    using navigate_not_found [OF b2 b3] by simp
  from a1 a2 b1 b2 b4 show ?thesis by (simp add: noOptions_def)
qed

text \<open>
  Claim C6. The length of the history list never exceeds the maximum of 50 after any sequence
  of operations; when an entry is appended to a full list the oldest entry is evicted first,
  and an entry equal in path to the most recent entry is not appended.

  The first conjuncts are the bound: for a router made by the constructor and any sequence
  of operations; for any operation on any state within the bound (also one with a navigation
  in flight); and for every single statement of the \<^verbatim>\<open>try\<close> block of \<^verbatim>\<open>navigate\<close>, between
  which other calls can run while a callback is awaited.
\<close>

theorem history_bounded_fifo:
  "maxHistoryLength = 50
   \<and> length (history (run ops (constructor cfg w))) \<le> 50
   \<and> (length (history r) \<le> 50 \<longrightarrow> length (history (perform op r)) \<le> 50)
   \<and> (a \<in> set (navigationSteps np rt opts) \<and> length (history r) \<le> 50 \<longrightarrow>
        length (history (snd (a r))) \<le> 50)
   \<and> (length (history r) = 50 \<and> entryPath (last (history r)) \<noteq> p \<longrightarrow>
        history (addToHistory p rt r) =
          tl (history r) @ [\<lparr>entryPath = p, entryRoute = title rt, timestamp = now (window r)\<rparr>])
   \<and> (history r \<noteq> [] \<and> entryPath (last (history r)) = p \<longrightarrow> addToHistory p rt r = r)"
proof -
  have m: "maxHistoryLength = 50"
    by (simp add: maxHistoryLength_def)
  have "historyBounded (constructor cfg w)"
    by (simp add: historyBounded_def constructor_def)
  then have a: "length (history (run ops (constructor cfg w))) \<le> 50"
    using run_bounded [of "constructor cfg w" ops] by (simp add: historyBounded_def m)
  have b: "length (history r) \<le> 50 \<longrightarrow> length (history (perform op r)) \<le> 50"
    using perform_bounded [of r op] by (simp add: historyBounded_def m)
  have s: "a \<in> set (navigationSteps np rt opts) \<and> length (history r) \<le> 50 \<longrightarrow>
        length (history (snd (a r))) \<le> 50"
    using steps_bounded [of a np rt opts r] by (simp add: historyBounded_def m)
  have c: "length (history r) = 50 \<and> entryPath (last (history r)) \<noteq> p \<longrightarrow>
        history (addToHistory p rt r) =
          tl (history r) @ [\<lparr>entryPath = p, entryRoute = title rt, timestamp = now (window r)\<rparr>]"
    using addToHistory_evicts [of r p rt] by (simp add: m)
  have d: "history r \<noteq> [] \<and> entryPath (last (history r)) = p \<longrightarrow> addToHistory p rt r = r"
    using addToHistory_skips [of r p rt] by simp
  from m a b s c d show ?thesis by simp
qed

text \<open>
  An instance on a full list whose last entry is for \<^verbatim>\<open>about\<close>: \<^verbatim>\<open>contact\<close> is appended and the
  oldest entry leaves, \<^verbatim>\<open>about\<close> is not appended, and \<^verbatim>\<open>navigate("contact")\<close> keeps the bound.
\<close>

theorem history_bounded_fifo_witness:
  "length (history fullRouter) = 50
   \<and> entryPath (last (history fullRouter)) \<noteq> ''contact''
   \<and> history (addToHistory ''contact'' (plainRoute ''contact'' ''Contact'') fullRouter) =
       tl (history fullRouter) @ [\<lparr>entryPath = ''contact'', entryRoute = ''Contact'', timestamp = 0\<rparr>]
   \<and> history fullRouter \<noteq> []
   \<and> entryPath (last (history fullRouter)) = ''about''
   \<and> addToHistory ''about'' (plainRoute ''about'' ''About'') fullRouter = fullRouter
   \<and> length (history (perform (Navigate (JStr ''contact'') noOptions) fullRouter)) \<le> 50
   \<and> addToHistoryStep ''contact'' (plainRoute ''contact'' ''Contact'')
       \<in> set (navigationSteps ''contact'' (plainRoute ''contact'' ''Contact'') noOptions)
   \<and> length (history (snd (addToHistoryStep ''contact'' (plainRoute ''contact'' ''Contact'')
                             fullRouter))) \<le> 50
   \<and> length (history (run [Navigate (JStr ''home'') noOptions, Back]
                        (constructor defaultConfig plainBrowser))) \<le> 50"
proof -
  have f1: "length (history fullRouter) = 50"
    by (simp add: fullRouter_def)
  have f2: "entryPath (last (history fullRouter)) = ''about''"
    by (simp add: fullRouter_def last_map)
  have f3: "history fullRouter \<noteq> []"
    by (simp add: fullRouter_def)
  have f4: "now (window fullRouter) = 0"
    by (simp add: fullRouter_def threeRoutes_value plainBrowser_def)
  have t: "title (plainRoute ''contact'' ''Contact'') = ''Contact''"
    by (simp add: plainRoute_def)
  have f5: "addToHistoryStep ''contact'' (plainRoute ''contact'' ''Contact'')
              \<in> set (navigationSteps ''contact'' (plainRoute ''contact'' ''Contact'') noOptions)"
    by (simp add: navigationSteps_def)
  note c = history_bounded_fifo [where ops = "[Navigate (JStr ''home'') noOptions, Back]"
      and cfg = defaultConfig and w = plainBrowser and r = fullRouter
      and op = "Navigate (JStr ''contact'') noOptions"
      and a = "addToHistoryStep ''contact'' (plainRoute ''contact'' ''Contact'')"
      and np = "''contact''" and rt = "plainRoute ''contact'' ''Contact''" and opts = noOptions
      and p = "''contact''"]
  note a = history_bounded_fifo [where ops = "[]" and cfg = defaultConfig and w = plainBrowser
      and r = fullRouter and op = "Navigate (JStr ''contact'') noOptions"
      and a = "addToHistoryStep ''about'' (plainRoute ''about'' ''About'')"
      and np = "''about''" and rt = "plainRoute ''about'' ''About''" and opts = noOptions
      and p = "''about''"]
  from c a f1 f2 f3 f4 f5 t show ?thesis by simp
qed




text \<open>
  Claim C8. With exactly the routes \<^verbatim>\<open>home\<close>, \<^verbatim>\<open>about\<close> and \<^verbatim>\<open>contact\<close> registered,
  \<^verbatim>\<open>navigate("abuot")\<close> redirects to \<^verbatim>\<open>about\<close>, because the edit distance between \<^verbatim>\<open>abuot\<close> and
  \<^verbatim>\<open>about\<close> (1, a similarity of 0.8) gives a similarity above the threshold 0.6.

  As amended: the edit distance between \<^verbatim>\<open>abuot\<close> and \<^verbatim>\<open>about\<close> is 2 (two letters differ; a
  swap is not one edit), the similarity is 3/5, which does not exceed the threshold, so
  \<^verbatim>\<open>findSimilarRoute("abuot")\<close> finds no route and \<^verbatim>\<open>handleNotFound("abuot")\<close> takes the branch of
  the default route \<^verbatim>\<open>home\<close>.
\<close>

theorem abuot_not_similar:
  "map fst (routes threeRoutes) = [''home'', ''about'', ''contact'']
   \<and> calculateEditDistance ''about'' ''abuot'' = 2
   \<and> calculateSimilarity ''abuot'' ''about'' = 3 / 5
   \<and> calculateSimilarity ''abuot'' ''home'' = 0
   \<and> calculateSimilarity ''abuot'' ''contact'' = 1 / 7
   \<and> findSimilarRoute threeRoutes (JStr ''abuot'') = Inr None
   \<and> handleNotFound (JStr ''abuot'') threeRoutes
       = (let (b, r') = navigate (JStr ''home'') noOptions threeRoutes in (Returned b, r'))"
proof -
  have k: "map fst (routes threeRoutes) = [''home'', ''about'', ''contact'']"
    by (simp add: threeRoutes_value)
  have d: "calculateEditDistance ''about'' ''abuot'' = 2"
    by (simp add: calculateEditDistance_def upt_rec)
  have s1: "calculateSimilarity ''abuot'' ''about'' = 3 / 5"
    by (simp add: calculateSimilarity_def calculateEditDistance_def upt_rec)
  have s2: "calculateSimilarity ''abuot'' ''home'' = 0"
    by (simp add: calculateSimilarity_def calculateEditDistance_def upt_rec)
  have s3: "calculateSimilarity ''abuot'' ''contact'' = 1 / 7"
    by (simp add: calculateSimilarity_def calculateEditDistance_def upt_rec)
  have f: "findSimilarRoute threeRoutes (JStr ''abuot'') = Inr None"
    by (simp add: findSimilarRoute_def k s1 s2 s3)
  have c: "defaultRoute (config threeRoutes) = ''home''"
    by (simp add: threeRoutes_value defaultConfig_def)
  have h: "handleNotFound (JStr ''abuot'') threeRoutes
       = (let (b, r') = navigate (JStr ''home'') noOptions threeRoutes in (Returned b, r'))"
    by (simp add: handleNotFound.simps f c)
  from k d s1 s2 s3 f h show ?thesis by simp
qed

text \<open>
  The claim as stated fails: the distance is not 1, the similarity is not above 0.6,
  \<^verbatim>\<open>about\<close> is not the similar route found, and \<^verbatim>\<open>navigate("abuot")\<close> does not end on \<^verbatim>\<open>about\<close>.
\<close>

theorem abuot_not_similar_counterexample:
  "calculateEditDistance ''about'' ''abuot'' \<noteq> 1
   \<and> \<not> calculateSimilarity ''abuot'' ''about'' > 6 / 10
   \<and> findSimilarRoute threeRoutes (JStr ''abuot'') \<noteq> Inr (Some ''about'')
   \<and> currentRoute (snd (navigate (JStr ''abuot'') noOptions threeRoutes)) \<noteq> Some ''about''"
proof -
  have d: "calculateEditDistance ''about'' ''abuot'' \<noteq> 1"
    by (simp add: calculateEditDistance_def upt_rec)
  have s: "\<not> calculateSimilarity ''abuot'' ''about'' > 6 / 10"
    by (simp add: calculateSimilarity_def calculateEditDistance_def upt_rec)
  have f: "findSimilarRoute threeRoutes (JStr ''abuot'') \<noteq> Inr (Some ''about'')"
    by (simp add: threeRoutes_value findSimilarRoute_def calculateSimilarity_def
        calculateEditDistance_def upt_rec)
  have "navigate (JStr ''abuot'') noOptions threeRoutes = (False, threeRoutes)"
    by (rule navigate_not_found) (simp_all add: threeRoutes_value eval_defs)
  then have n: "currentRoute (snd (navigate (JStr ''abuot'') noOptions threeRoutes)) \<noteq> Some ''about''"
    by (simp add: threeRoutes_value)
  from d s f n show ?thesis by simp
qed

text \<open>
  Claim C9. For every falsy path argument (\<^verbatim>\<open>null\<close>, \<^verbatim>\<open>undefined\<close> or the empty string),
  \<^verbatim>\<open>normalizePath\<close> returns the configured default route, so that \<^verbatim>\<open>navigate(null)\<close>,
  \<^verbatim>\<open>navigate(undefined)\<close> and \<^verbatim>\<open>navigate("")\<close> all target the default route rather than failing.

  As amended: \<^verbatim>\<open>normalizePath\<close> returns the default route for each of the three, and on an
  idle router that has the default route registered, \<^verbatim>\<open>navigate\<close> of a falsy path is a
  navigation to the default route. When nothing vetoes it and no browser call throws, it
  returns \<^verbatim>\<open>true\<close>, makes the default route the current one and invokes its handler; when the
  default route is the current one already and no force flag is set, it is the no-op that
  returns \<^verbatim>\<open>true\<close>; when a before-listener or the guard of the route vetoes it, it returns
  \<^verbatim>\<open>false\<close> as any vetoed navigation does.
\<close>

theorem navigate_falsy_targets_default:
  "normalizePath cfg JNull = defaultRoute cfg
   \<and> normalizePath cfg JUndefined = defaultRoute cfg
   \<and> normalizePath cfg (JStr []) = defaultRoute cfg
   \<and> (falsy p \<and> \<not> isNavigating r \<and> mapGet (routes r) (defaultRoute (config r)) = Some rt
        \<and> \<not> (currentRoute r = Some (defaultRoute (config r)) \<and> \<not> force opts)
        \<and> \<not> vetoed (defaultRoute (config r)) rt r \<and> (\<forall>s. \<not> domThrows (window r) s) \<longrightarrow>
       fst (navigate p opts r) = True
       \<and> currentRoute (snd (navigate p opts r)) = Some (defaultRoute (config r))
       \<and> previousRoute (snd (navigate p opts r)) = currentRoute r
       \<and> handlerCalls (window (snd (navigate p opts r))) = handlerCalls (window r) @ [path rt]
       \<and> \<not> isNavigating (snd (navigate p opts r)))
   \<and> (falsy p \<and> \<not> isNavigating r \<and> mapGet (routes r) (defaultRoute (config r)) = Some rt
        \<and> currentRoute r = Some (defaultRoute (config r)) \<and> \<not> force opts \<longrightarrow>
       navigate p opts r = (True, r))
   \<and> (falsy p \<and> \<not> isNavigating r \<and> mapGet (routes r) (defaultRoute (config r)) = Some rt
        \<and> \<not> (currentRoute r = Some (defaultRoute (config r)) \<and> \<not> force opts)
        \<and> vetoed (defaultRoute (config r)) rt r \<longrightarrow>
       navigate p opts r = (False, r\<lparr>previousRoute := currentRoute r\<rparr>))"
proof -
  have n: "normalizePath c q = defaultRoute c" if "falsy q" for c q
    using that by (simp add: falsy_def normalizePath_def split: pathArg.splits)
  have n3: "normalizePath cfg JNull = defaultRoute cfg
     \<and> normalizePath cfg JUndefined = defaultRoute cfg
     \<and> normalizePath cfg (JStr []) = defaultRoute cfg"
    by (simp add: normalizePath_def)
  have a: "falsy p \<and> \<not> isNavigating r \<and> mapGet (routes r) (defaultRoute (config r)) = Some rt
        \<and> \<not> (currentRoute r = Some (defaultRoute (config r)) \<and> \<not> force opts)
        \<and> \<not> vetoed (defaultRoute (config r)) rt r \<and> (\<forall>s. \<not> domThrows (window r) s) \<longrightarrow>
       fst (navigate p opts r) = True
       \<and> currentRoute (snd (navigate p opts r)) = Some (defaultRoute (config r))
       \<and> previousRoute (snd (navigate p opts r)) = currentRoute r
       \<and> handlerCalls (window (snd (navigate p opts r))) = handlerCalls (window r) @ [path rt]
       \<and> \<not> isNavigating (snd (navigate p opts r))"
  proof
    assume h: "falsy p \<and> \<not> isNavigating r \<and> mapGet (routes r) (defaultRoute (config r)) = Some rt
        \<and> \<not> (currentRoute r = Some (defaultRoute (config r)) \<and> \<not> force opts)
        \<and> \<not> vetoed (defaultRoute (config r)) rt r \<and> (\<forall>s. \<not> domThrows (window r) s)"
    then have e: "normalizePath (config r) p = defaultRoute (config r)"
      using n by blast
    show "fst (navigate p opts r) = True
       \<and> currentRoute (snd (navigate p opts r)) = Some (defaultRoute (config r))
       \<and> previousRoute (snd (navigate p opts r)) = currentRoute r
       \<and> handlerCalls (window (snd (navigate p opts r))) = handlerCalls (window r) @ [path rt]
       \<and> \<not> isNavigating (snd (navigate p opts r))"
      using navigate_succeeds [of r p rt opts] h by (simp only: e simp_thms)
  qed
  have b: "falsy p \<and> \<not> isNavigating r \<and> mapGet (routes r) (defaultRoute (config r)) = Some rt
        \<and> currentRoute r = Some (defaultRoute (config r)) \<and> \<not> force opts \<longrightarrow>
       navigate p opts r = (True, r)"
  proof
    assume h: "falsy p \<and> \<not> isNavigating r \<and> mapGet (routes r) (defaultRoute (config r)) = Some rt
        \<and> currentRoute r = Some (defaultRoute (config r)) \<and> \<not> force opts"
    then have e: "normalizePath (config r) p = defaultRoute (config r)"
      using n by blast
    show "navigate p opts r = (True, r)"
      using navigate_same_route [of r p rt opts] h by (simp only: e simp_thms)
  qed
  have c: "falsy p \<and> \<not> isNavigating r \<and> mapGet (routes r) (defaultRoute (config r)) = Some rt
        \<and> \<not> (currentRoute r = Some (defaultRoute (config r)) \<and> \<not> force opts)
        \<and> vetoed (defaultRoute (config r)) rt r \<longrightarrow>
       navigate p opts r = (False, r\<lparr>previousRoute := currentRoute r\<rparr>)"
  proof
    assume h: "falsy p \<and> \<not> isNavigating r \<and> mapGet (routes r) (defaultRoute (config r)) = Some rt
        \<and> \<not> (currentRoute r = Some (defaultRoute (config r)) \<and> \<not> force opts)
        \<and> vetoed (defaultRoute (config r)) rt r"
    then have e: "normalizePath (config r) p = defaultRoute (config r)"
      using n by blast
    show "navigate p opts r = (False, r\<lparr>previousRoute := currentRoute r\<rparr>)"
      using navigate_vetoed [of r p rt opts] h by (simp only: e simp_thms)
  qed
  from n3 a b c show ?thesis by blast
qed

text \<open>
  Three instances on the router with three routes: \<^verbatim>\<open>navigate(null)\<close> from no route ends on
  \<^verbatim>\<open>home\<close> with the handler of \<^verbatim>\<open>home\<close> invoked; \<^verbatim>\<open>navigate("")\<close> on \<^verbatim>\<open>home\<close> is the no-op;
  \<^verbatim>\<open>navigate(undefined)\<close> under a listener that returns \<^verbatim>\<open>false\<close> is vetoed.
\<close>

theorem navigate_falsy_targets_default_witness:
  "falsy JNull \<and> \<not> isNavigating threeRoutes
   \<and> mapGet (routes threeRoutes) (defaultRoute (config threeRoutes)) = Some (plainRoute ''home'' ''Home'')
   \<and> \<not> (currentRoute threeRoutes = Some (defaultRoute (config threeRoutes)) \<and> \<not> force noOptions)
   \<and> \<not> vetoed (defaultRoute (config threeRoutes)) (plainRoute ''home'' ''Home'') threeRoutes
   \<and> (\<forall>s. \<not> domThrows (window threeRoutes) s)
   \<and> fst (navigate JNull noOptions threeRoutes) = True
   \<and> currentRoute (snd (navigate JNull noOptions threeRoutes)) = Some ''home''
   \<and> handlerCalls (window (snd (navigate JNull noOptions threeRoutes))) = [''home'']
   \<and> falsy (JStr [])
   \<and> currentRoute homeCurrent = Some (defaultRoute (config homeCurrent))
   \<and> navigate (JStr []) noOptions homeCurrent = (True, homeCurrent)
   \<and> falsy JUndefined
   \<and> vetoed (defaultRoute (config denyingRouter)) (plainRoute ''home'' ''Home'') denyingRouter
   \<and> navigate JUndefined noOptions denyingRouter = (False, denyingRouter)"
proof -
  let ?home = "plainRoute ''home'' ''Home''"
  have f: "falsy JNull" "falsy (JStr [])" "falsy JUndefined"
    by (simp_all add: falsy_def)
  have nf: "\<not> force noOptions"
    by (simp add: noOptions_def)
  have d: "defaultRoute (config threeRoutes) = ''home''"
      "defaultRoute (config homeCurrent) = ''home''"
      "defaultRoute (config denyingRouter) = ''home''"
    by (simp_all add: homeCurrent_def denyingRouter_def threeRoutes_value defaultConfig_def)
  have i: "\<not> isNavigating threeRoutes" "\<not> isNavigating homeCurrent" "\<not> isNavigating denyingRouter"
    by (simp_all add: homeCurrent_def denyingRouter_def threeRoutes_value)
  have m: "mapGet (routes threeRoutes) (defaultRoute (config threeRoutes)) = Some ?home"
      "mapGet (routes homeCurrent) (defaultRoute (config homeCurrent)) = Some ?home"
      "mapGet (routes denyingRouter) (defaultRoute (config denyingRouter)) = Some ?home"
    by (simp_all add: homeCurrent_def denyingRouter_def threeRoutes_value defaultConfig_def
        mapGet_def)
  have c: "currentRoute threeRoutes = None" "currentRoute homeCurrent = Some ''home''"
      "currentRoute denyingRouter = None" "previousRoute denyingRouter = None"
    by (simp_all add: homeCurrent_def denyingRouter_def threeRoutes_value)
  have v1: "\<not> vetoed (defaultRoute (config threeRoutes)) ?home threeRoutes"
    by (simp add: vetoed_def runBeforeListeners_def plainRoute_def threeRoutes_value)
  have v3: "vetoed (defaultRoute (config denyingRouter)) ?home denyingRouter"
    by (simp add: vetoed_def runBeforeListeners_def denyAll_def denyingRouter_def)
  have t: "\<forall>s. \<not> domThrows (window threeRoutes) s"
    by (simp add: threeRoutes_value plainBrowser_def)
  have w: "handlerCalls (window threeRoutes) = []" "path ?home = ''home''"
    by (simp_all add: threeRoutes_value plainBrowser_def plainRoute_def)
  have same: "denyingRouter\<lparr>previousRoute := currentRoute denyingRouter\<rparr> = denyingRouter"
    using c(3,4) by simp
  note t1 = navigate_falsy_targets_default [of defaultConfig JNull threeRoutes ?home noOptions]
  note t2 = navigate_falsy_targets_default [of defaultConfig "JStr []" homeCurrent ?home noOptions]
  note t3 = navigate_falsy_targets_default [of defaultConfig JUndefined denyingRouter ?home noOptions]
  have r1: "fst (navigate JNull noOptions threeRoutes) = True
     \<and> currentRoute (snd (navigate JNull noOptions threeRoutes)) = Some ''home''
     \<and> handlerCalls (window (snd (navigate JNull noOptions threeRoutes))) = [''home'']"
    using t1 f(1) i(1) m(1) c(1) v1 t nf w d(1) by simp
  have r2: "navigate (JStr []) noOptions homeCurrent = (True, homeCurrent)"
    using t2 f(2) i(2) m(2) c(2) d(2) nf by simp
  have r3: "navigate JUndefined noOptions denyingRouter = (False, denyingRouter)"
    using t3 f(3) i(3) m(3) c(3) d(3) v3 same by simp
  from f i m c v1 v3 t r1 r2 r3 d nf show ?thesis by simp
qed

text \<open>
  The claim as stated fails in two states. On the fresh router with \<^verbatim>\<open>about\<close> alone, the
  default route is not found, \<^verbatim>\<open>handleNotFound(null)\<close> reads \<^verbatim>\<open>null.length\<close>, and \<^verbatim>\<open>navigate(null)\<close>
  reports a navigation error and returns \<^verbatim>\<open>false\<close> on no route. While another navigation
  is in flight, \<^verbatim>\<open>navigate(null)\<close> returns \<^verbatim>\<open>false\<close> although \<^verbatim>\<open>home\<close> is registered.
\<close>

theorem navigate_falsy_targets_default_counterexample:
  "falsy JNull \<and> \<not> isNavigating onlyAbout
   \<and> map fst (routes onlyAbout) = [''about'']
   \<and> normalizePath (config onlyAbout) JNull = ''home''
   \<and> findSimilarRoute onlyAbout JNull = Inl TypeError
   \<and> fst (navigate JNull noOptions onlyAbout) = False
   \<and> currentRoute (snd (navigate JNull noOptions onlyAbout)) = None
   \<and> dispatched (window (snd (navigate JNull noOptions onlyAbout))) = [RouterError Navigation]
   \<and> mapHas (routes busyRouter) (normalizePath (config busyRouter) JNull)
   \<and> fst (navigate JNull noOptions busyRouter) = False
   \<and> currentRoute (snd (navigate JNull noOptions busyRouter)) = None"
proof -
  have v: "onlyAbout =
     \<lparr>routes = [(''about'', plainRoute ''about'' ''About'')],
      currentRoute = None, previousRoute = None, isNavigating = False, config = defaultConfig,
      beforeRoute = [], afterRoute = [], routeError = [], history = [],
      navigationMetrics = [], window = plainBrowser\<rparr>"
    by (simp add: onlyAbout_def run_def addRoute_def constructor_def noRouteOptions_def
        plainRoute_def toLowerCase_def toLowerChar_def toUpperChar_def charToUpperCase_def
        formatTitle_def)
  have f: "falsy JNull"
    by (simp add: falsy_def)
  have i: "\<not> isNavigating onlyAbout"
    by (simp add: v)
  have k: "map fst (routes onlyAbout) = [''about'']"
    by (simp add: v)
  have n: "normalizePath (config onlyAbout) JNull = ''home''"
    by (simp add: v normalizePath_def defaultConfig_def)
  have s: "findSimilarRoute onlyAbout JNull = Inl TypeError"
    by (simp add: v findSimilarRoute_def)
  have a: "fst (navigate JNull noOptions onlyAbout) = False
     \<and> currentRoute (snd (navigate JNull noOptions onlyAbout)) = None
     \<and> dispatched (window (snd (navigate JNull noOptions onlyAbout))) = [RouterError Navigation]"
  proof -
    have m0: "mapGet (routes onlyAbout) ''home'' = None"
      by (simp add: v mapGet_def)
    have "navigate JNull noOptions onlyAbout
            = catchFinally (Raised TypeError, onlyAbout\<lparr>isNavigating := True\<rparr>)"
      by (simp add: navigate_idle [OF i] n m0 s)
    then show ?thesis
      by (simp add: catchFinally_def handleError_def dispatchEvent_def v plainBrowser_def)
  qed
  have b0: "mapHas (routes busyRouter) (normalizePath (config busyRouter) JNull)"
    by (simp add: busyRouter_def threeRoutes_value normalizePath_def defaultConfig_def
        mapHas_def mapGet_def)
  have b: "fst (navigate JNull noOptions busyRouter) = False
     \<and> currentRoute (snd (navigate JNull noOptions busyRouter)) = None"
    by (simp add: busyRouter_def navigate_navigating threeRoutes_value)
  from f i k n s a b0 b show ?thesis by simp
qed

text \<open>
  Claim C10. For all strings \<open>a\<close> and \<open>b\<close>, \<^verbatim>\<open>calculateSimilarity(a, b)\<close> equals
  \<^verbatim>\<open>calculateSimilarity(b, a)\<close>, and the result lies between 0 and 1 inclusive.
\<close>

theorem calculateSimilarity_symmetric_unit:
  "calculateSimilarity a b = calculateSimilarity b a
   \<and> 0 \<le> calculateSimilarity a b \<and> calculateSimilarity a b \<le> 1"
  using similarity_sym [of a b] similarity_unit [of a b] by simp

end
